theory Spec2Isabelle
  imports Complex_Main "HOL-Library.Multiset"
begin

section \<open>JavaScript numbers\<close>

text \<open>
  A JavaScript \<^verbatim>\<open>number\<close> is modelled as \<open>NaN\<close> or a rational value. Every
  arithmetic operation whose exact result need not be a binary64 value takes the
  rounding \<open>r\<close> that the engine applies to the exact result (round to nearest,
  ties to even: \<open>binary64\<close> below). Properties that do not depend on rounding are
  proved for every rounding. Infinities do not arise: every divisor in the code is a
  non-zero constant, a positive length or a value tested to be \<open>> 0\<close>.
\<close>

datatype jsnum = NaN | Num rat

fun jbin :: "(rat \<Rightarrow> rat \<Rightarrow> rat) \<Rightarrow> jsnum \<Rightarrow> jsnum \<Rightarrow> jsnum" where
  "jbin f (Num a) (Num b) = Num (f a b)"
| "jbin f _ _ = NaN"

definition jadd :: "(rat \<Rightarrow> rat) \<Rightarrow> jsnum \<Rightarrow> jsnum \<Rightarrow> jsnum" where
  "jadd r = jbin (\<lambda>a b. r (a + b))"

definition jsub :: "(rat \<Rightarrow> rat) \<Rightarrow> jsnum \<Rightarrow> jsnum \<Rightarrow> jsnum" where
  "jsub r = jbin (\<lambda>a b. r (a - b))"

definition jdiv :: "(rat \<Rightarrow> rat) \<Rightarrow> jsnum \<Rightarrow> jsnum \<Rightarrow> jsnum" where
  "jdiv r = jbin (\<lambda>a b. r (a / b))"

text \<open>\<^verbatim>\<open>Math.max(0, x)\<close>: \<open>NaN\<close> if \<open>x\<close> is.\<close>

fun jmax0 :: "jsnum \<Rightarrow> jsnum" where
  "jmax0 NaN = NaN"
| "jmax0 (Num a) = Num (max 0 a)"

text \<open>\<^verbatim>\<open>x > 0\<close>: false on \<open>NaN\<close>.\<close>

fun jpos :: "jsnum \<Rightarrow> bool" where
  "jpos NaN = False"
| "jpos (Num a) = (0 < a)"

text \<open>Truthiness of a number: \<open>0\<close> and \<open>NaN\<close> are falsy.\<close>

fun truthy :: "jsnum \<Rightarrow> bool" where
  "truthy NaN = False"
| "truthy (Num a) = (a \<noteq> 0)"

text \<open>\<^verbatim>\<open>Math.round\<close>: the nearest integer, a tie going up.\<close>

fun jround :: "jsnum \<Rightarrow> jsnum" where
  "jround NaN = NaN"
| "jround (Num a) = Num (of_int \<lfloor>a + 1 / 2\<rfloor>)"

text \<open>
  \<^verbatim>\<open>Number(x.toFixed(2))\<close>: \<open>toFixed\<close> takes the integer \<open>n\<close> with \<open>n / 100\<close>
  nearest to \<open>|x|\<close> (the larger on a tie) and prints sign and decimals; \<open>Number\<close> reads
  the decimal string back, rounding it to binary64. (Below \<open>10\<^sup>2\<^sup>1\<close>, where
  \<open>toFixed\<close> prints no exponent.)
\<close>

fun toFixed2 :: "(rat \<Rightarrow> rat) \<Rightarrow> jsnum \<Rightarrow> jsnum" where
  "toFixed2 r NaN = NaN"
| "toFixed2 r (Num a) =
     Num (r ((if a < 0 then - 1 else 1) * of_int \<lfloor>\<bar>a\<bar> * 100 + 1 / 2\<rfloor> / 100))"

text \<open>
  Rounding to binary64, to the nearest value with a 53-bit significand, a tie going to
  the even significand. \<open>expo f x\<close> is the binary exponent \<open>\<lfloor>log\<^sub>2 x\<rfloor>\<close> of a positive
  \<open>x\<close>, found by halving or doubling at most \<open>f\<close> times; binary64 exponents lie
  within \<open>\<plusminus>1100\<close>. Overflow and subnormal numbers are not modelled: the numbers of
  this program (milliseconds, minutes, percentages, rates) are far from both.
\<close>

fun expo :: "nat \<Rightarrow> rat \<Rightarrow> int" where
  "expo 0 x = 0"
| "expo (Suc f) x =
     (if 2 \<le> x then expo f (x / 2) + 1
      else if x < 1 then expo f (x * 2) - 1
      else 0)"

definition roundHalfEven :: "rat \<Rightarrow> int" where
  "roundHalfEven q =
     (let n = \<lfloor>q\<rfloor>; r = q - of_int n
      in if r < 1 / 2 then n else if 1 / 2 < r then n + 1
         else if even n then n else n + 1)"

definition binary64 :: "rat \<Rightarrow> rat" where
  "binary64 x =
     (if x = 0 then 0
      else let u = power_int 2 (expo 1100 \<bar>x\<bar> - 52)
           in sgn x * of_int (roundHalfEven (\<bar>x\<bar> / u)) * u)"

section \<open>Battery events\<close>

datatype BatteryState = Active | Idle | Charging | Unknown

text \<open>
  \<open>percent\<close> is an integer: the parser produces it with \<^verbatim>\<open>parseInt\<close> from one
  to three digits. \<open>mWh\<close> is absent (\<open>None\<close>) or a number, which is \<open>NaN\<close> when the
  matched text holds commas only.
\<close>

record BatteryEvent =
  timestamp :: string
  minutesOffset :: jsnum
  state :: BatteryState
  percent :: int
  mWh :: "jsnum option"
  rawState :: string

section \<open>The platform\<close>

text \<open>
  What the program takes from the JavaScript engine and its environment:
  \<^item> \<open>dateParse\<close>: \<^verbatim>\<open>new Date(s).getTime()\<close>, the instant in milliseconds, \<open>None\<close> for
    an invalid date (\<^verbatim>\<open>NaN\<close>). The strings of this program (\<^verbatim>\<open>YYYY-MM-DD H:MM:SS\<close>) are
    not in the ISO format, so which of them parse, and to what, is the engine's choice
    and depends on the time zone;
  \<^item> \<open>previousDayOf\<close>: the date string that \<^verbatim>\<open>parseText\<close> builds from the first dated
    line with \<^verbatim>\<open>new Date\<close>, \<^verbatim>\<open>setDate(getDate() - 1)\<close> and the local calendar getters;
  \<^item> \<open>today\<close>: the local date \<^verbatim>\<open>YYYY-MM-DD\<close> built from \<^verbatim>\<open>new Date()\<close>;
  \<^item> \<open>rnd\<close>: the rounding of arithmetic results.
  All theorems hold for every platform unless they say otherwise.
\<close>

record Platform =
  dateParse :: "string \<Rightarrow> int option"
  previousDayOf :: "string \<Rightarrow> string"
  today :: string
  rnd :: "rat \<Rightarrow> rat"

definition getTime :: "Platform \<Rightarrow> string \<Rightarrow> jsnum" where
  "getTime pf ts = (case dateParse pf ts of None \<Rightarrow> NaN | Some t \<Rightarrow> Num (of_int t))"

section \<open>Strings\<close>

text \<open>
  A string is a list of 8-bit characters: the model covers texts whose code units are
  below 256. \<open>isSpace\<close> is the class \<^verbatim>\<open>\s\<close> there, which is also what
  \<^verbatim>\<open>trim\<close> removes; \<open>isDigit\<close> is \<^verbatim>\<open>\d\<close>.
\<close>

definition isSpace :: "char \<Rightarrow> bool" where
  "isSpace c = (c \<in> set [CHR 0x09, CHR 0x0A, CHR 0x0B, CHR 0x0C, CHR 0x0D, CHR 0x20, CHR 0xA0])"

definition isDigit :: "char \<Rightarrow> bool" where
  "isDigit c = (c \<in> set ''0123456789'')"

definition trim :: "string \<Rightarrow> string" where
  "trim s = rev (dropWhile isSpace (rev (dropWhile isSpace s)))"

text \<open>\<^verbatim>\<open>text.split("\n")\<close>: the empty text gives one empty line.\<close>

fun splitLines :: "string \<Rightarrow> string list" where
  "splitLines [] = [[]]"
| "splitLines (c # cs) =
     (if c = CHR 0x0A then [] # splitLines cs
      else (case splitLines cs of l # ls \<Rightarrow> (c # l) # ls | [] \<Rightarrow> [[c]]))"

fun startsWith :: "string \<Rightarrow> string \<Rightarrow> bool" where
  "startsWith s [] = True"
| "startsWith [] (p # ps) = False"
| "startsWith (c # cs) (p # ps) = (c = p \<and> startsWith cs ps)"

fun includesStr :: "string \<Rightarrow> string \<Rightarrow> bool" where
  "includesStr [] sub = (sub = [])"
| "includesStr (c # cs) sub = (startsWith (c # cs) sub \<or> includesStr cs sub)"

text \<open>
  \<^verbatim>\<open>toLowerCase\<close> on code units below 256: the letters A to Z and the capital
  letters of Latin-1 (C0 to DE but the multiplication sign D7) go to their small
  letters, 32 code units up.
\<close>

definition upperChars :: string where
  "upperChars = ''ABCDEFGHIJKLMNOPQRSTUVWXYZ'' @
     [CHR 0xC0, CHR 0xC1, CHR 0xC2, CHR 0xC3, CHR 0xC4, CHR 0xC5, CHR 0xC6, CHR 0xC7,
      CHR 0xC8, CHR 0xC9, CHR 0xCA, CHR 0xCB, CHR 0xCC, CHR 0xCD, CHR 0xCE, CHR 0xCF,
      CHR 0xD0, CHR 0xD1, CHR 0xD2, CHR 0xD3, CHR 0xD4, CHR 0xD5, CHR 0xD6, CHR 0xD8,
      CHR 0xD9, CHR 0xDA, CHR 0xDB, CHR 0xDC, CHR 0xDD, CHR 0xDE]"

definition lowerChars :: string where
  "lowerChars = ''abcdefghijklmnopqrstuvwxyz'' @
     [CHR 0xE0, CHR 0xE1, CHR 0xE2, CHR 0xE3, CHR 0xE4, CHR 0xE5, CHR 0xE6, CHR 0xE7,
      CHR 0xE8, CHR 0xE9, CHR 0xEA, CHR 0xEB, CHR 0xEC, CHR 0xED, CHR 0xEE, CHR 0xEF,
      CHR 0xF0, CHR 0xF1, CHR 0xF2, CHR 0xF3, CHR 0xF4, CHR 0xF5, CHR 0xF6, CHR 0xF8,
      CHR 0xF9, CHR 0xFA, CHR 0xFB, CHR 0xFC, CHR 0xFD, CHR 0xFE]"

definition lowerChar :: "char \<Rightarrow> char" where
  "lowerChar c = (case map_of (zip upperChars lowerChars) c of Some l \<Rightarrow> l | None \<Rightarrow> c)"

definition toLowerCase :: "string \<Rightarrow> string" where
  "toLowerCase s = map lowerChar s"

text \<open>\<^verbatim>\<open>Number.parseInt(s, 10)\<close> on a string of digits, and the decimal form of a
  natural number in a template string.\<close>

definition digitVal :: "char \<Rightarrow> nat" where
  "digitVal c =
     (case map_of (zip ''0123456789'' [0, 1, 2, 3, 4, 5, 6, 7, 8, 9]) c of
        Some v \<Rightarrow> v
      | None \<Rightarrow> 0)"

definition parseDigits :: "string \<Rightarrow> nat" where
  "parseDigits s = foldl (\<lambda>n c. 10 * n + digitVal c) 0 s"

fun showNat :: "nat \<Rightarrow> string" where
  "showNat n =
     (if n < 10 then [''0123456789'' ! n]
      else showNat (n div 10) @ [''0123456789'' ! (n mod 10)])"

declare showNat.simps [simp del]

section \<open>The regular expressions\<close>

text \<open>
  \<^verbatim>\<open>TIMESTAMP_REGEX = /^(?:(\d{4}-\d{2}-\d{2})\s*)?(\d{1,2}:\d{2}:\d{2})/\<close>.
  \<open>matchDate\<close> is the first group with the rest of the string; \<open>matchTime\<close> the second
  group, which tries two hour digits before one. When the optional date part matches
  and no time follows it, the expression backtracks to a time at the start.
  The result holds the groups 1 (absent for a time-only match) and 2.
\<close>

definition matchDate :: "string \<Rightarrow> (string \<times> string) option" where
  "matchDate s =
     (if 10 \<le> length s \<and> list_all isDigit (take 4 s) \<and> s ! 4 = CHR ''-''
         \<and> list_all isDigit (take 2 (drop 5 s)) \<and> s ! 7 = CHR ''-''
         \<and> list_all isDigit (take 2 (drop 8 s))
      then Some (take 10 s, drop 10 s) else None)"

definition timeTail :: "string \<Rightarrow> bool" where
  "timeTail s =
     (6 \<le> length s \<and> s ! 0 = CHR '':'' \<and> isDigit (s ! 1) \<and> isDigit (s ! 2)
      \<and> s ! 3 = CHR '':'' \<and> isDigit (s ! 4) \<and> isDigit (s ! 5))"

definition matchTime :: "string \<Rightarrow> string option" where
  "matchTime s =
     (if 2 \<le> length s \<and> isDigit (s ! 0) \<and> isDigit (s ! 1) \<and> timeTail (drop 2 s)
      then Some (take 8 s)
      else if 1 \<le> length s \<and> isDigit (s ! 0) \<and> timeTail (drop 1 s)
      then Some (take 7 s)
      else None)"

definition matchTimestamp :: "string \<Rightarrow> (string option \<times> string) option" where
  "matchTimestamp s =
     (case matchDate s of
        Some (d, rest) \<Rightarrow>
          (case matchTime (dropWhile isSpace rest) of
             Some t \<Rightarrow> Some (Some d, t)
           | None \<Rightarrow> map_option (Pair None) (matchTime s))
      | None \<Rightarrow> map_option (Pair None) (matchTime s))"

text \<open>
  \<^verbatim>\<open>PERCENT_REGEX = /(\d{1,3})\s*%/\<close>, not anchored: the leftmost position where it
  matches, and there three digits before two before one. The result is group 1.
\<close>

definition percentWith :: "nat \<Rightarrow> string \<Rightarrow> bool" where
  "percentWith k s =
     (k \<le> length s \<and> list_all isDigit (take k s)
      \<and> startsWith (dropWhile isSpace (drop k s)) ''%'')"

definition percentAt :: "string \<Rightarrow> string option" where
  "percentAt s =
     (if percentWith 3 s then Some (take 3 s)
      else if percentWith 2 s then Some (take 2 s)
      else if percentWith 1 s then Some (take 1 s)
      else None)"

fun matchPercent :: "string \<Rightarrow> string option" where
  "matchPercent [] = None"
| "matchPercent (c # cs) =
     (case percentAt (c # cs) of Some d \<Rightarrow> Some d | None \<Rightarrow> matchPercent cs)"

text \<open>
  \<^verbatim>\<open>MWH_REGEX = /([\d,]+)\s*mWh/\<close>, not anchored. At a position the group takes the
  longest run of digits and commas; a shorter one would be followed by a digit or a
  comma, where neither \<^verbatim>\<open>\s*\<close> nor \<^verbatim>\<open>m\<close> matches.
\<close>

definition mWhAt :: "string \<Rightarrow> string option" where
  "mWhAt s =
     (let run = takeWhile (\<lambda>c. isDigit c \<or> c = CHR '','') s
      in if run \<noteq> [] \<and> startsWith (dropWhile isSpace (drop (length run) s)) ''mWh''
         then Some run else None)"

fun matchMWh :: "string \<Rightarrow> string option" where
  "matchMWh [] = None"
| "matchMWh (c # cs) =
     (case mWhAt (c # cs) of Some d \<Rightarrow> Some d | None \<Rightarrow> matchMWh cs)"

text \<open>
  \<^verbatim>\<open>line.split(/\t+|\s{2,}/)\<close>. \<open>sepLen s\<close> is the length of the separator that
  matches at the start of \<open>s\<close> (0 for none): a run of tabs, else a run of two or more
  white-space characters. \<open>splitParts cur s\<close> has read \<open>cur\<close> (reversed) of the current
  part. Empty parts are produced, as \<^verbatim>\<open>split\<close> does, and filtered by the caller.
\<close>

definition sepLen :: "string \<Rightarrow> nat" where
  "sepLen s =
     (case s of
        [] \<Rightarrow> 0
      | c # _ \<Rightarrow>
          if c = CHR 0x09 then length (takeWhile (\<lambda>x. x = CHR 0x09) s)
          else (let w = length (takeWhile isSpace s) in if 2 \<le> w then w else 0))"

function splitParts :: "string \<Rightarrow> string \<Rightarrow> string list" where
  "splitParts cur [] = [rev cur]"
| "splitParts cur (c # cs) =
     (if sepLen (c # cs) = 0 then splitParts (c # cur) cs
      else rev cur # splitParts [] (drop (sepLen (c # cs)) (c # cs)))"
  by pat_completeness auto
termination
  by (relation "measure (\<lambda>(cur, s). length s)") auto

section \<open>The parser\<close>

record TimeRange =
  rangeStart :: string
  rangeEnd :: string

record Metadata =
  totalEvents :: nat
  hasEnergyData :: bool
  timeRange :: TimeRange

record ParsedBatteryData =
  events :: "BatteryEvent list"
  startDate :: "int option"
  errors :: "string list"
  metadata :: Metadata

definition normalizeState :: "string \<Rightarrow> BatteryState" where
  "normalizeState rawSt =
     (let st = toLowerCase rawSt
      in if includesStr st ''active'' then Active
         else if includesStr st ''standby'' \<or> includesStr st ''suspended'' \<or> includesStr st ''sleep''
         then Idle
         else if includesStr st ''charging'' \<or> includesStr st ''plugged'' \<or> includesStr st ''ac''
         then Charging
         else Unknown)"

text \<open>An optional string in a condition: absent and empty are falsy.\<close>

definition given :: "string option \<Rightarrow> string option" where
  "given x = (case x of None \<Rightarrow> None | Some s \<Rightarrow> if s = [] then None else Some s)"

text \<open>The non-blank parts of a line: \<^verbatim>\<open>split\<close> and \<^verbatim>\<open>filter\<close>.\<close>

definition lineParts :: "string \<Rightarrow> string list" where
  "lineParts line = filter (\<lambda>part. 0 < length (trim part)) (splitParts [] line)"

text \<open>
  \<^verbatim>\<open>parseLine\<close>: \<open>None\<close> is \<^verbatim>\<open>null\<close>, otherwise the event and \<^verbatim>\<open>updatedDate\<close>.
  \<open>td\<close> is the platform's current date. \<^verbatim>\<open>Number.parseInt\<close> gives the binary64 value
  nearest to the decimal digits: exact for the one to three digits of a percentage,
  rounded for an energy reading above \<open>2\<^sup>5\<^sup>3\<close>.
\<close>

definition parseLine ::
  "string \<Rightarrow> string \<Rightarrow> string option \<Rightarrow> string option \<Rightarrow> (BatteryEvent \<times> string option) option"
where
  "parseLine td line lastSeenDate previousDay =
     (if CHR ''<'' \<in> set line \<or> includesStr line ''Report generated'' \<or> length line < 10
      then None
      else
        let parts = lineParts line in
        if length parts < 3 then None
        else
          case matchTimestamp (parts ! 0) of
            None \<Rightarrow> None
          | Some (dateStr, timeStr) \<Rightarrow>
              let (ts, updatedDate) =
                    (case given dateStr of
                       Some d \<Rightarrow> (d @ '' '' @ timeStr, Some d)
                     | None \<Rightarrow>
                         (case given lastSeenDate of
                            Some d \<Rightarrow> (d @ '' '' @ timeStr, None)
                          | None \<Rightarrow>
                              (case given previousDay of
                                 Some d \<Rightarrow> (d @ '' '' @ timeStr, None)
                               | None \<Rightarrow> (td @ '' '' @ timeStr, Some td))));
                  rawSt = (if parts ! 1 = [] then ''Unknown'' else parts ! 1)
              in
                case matchPercent line of
                  None \<Rightarrow> None
                | Some digits \<Rightarrow>
                    Some (\<lparr> timestamp = ts,
                            minutesOffset = Num 0,
                            state = normalizeState rawSt,
                            percent = int (parseDigits digits),
                            mWh = (case matchMWh line of
                                     None \<Rightarrow> None
                                   | Some run \<Rightarrow>
                                       (let ds = filter (\<lambda>c. c \<noteq> CHR '','') run
                                        in Some (if ds = [] then NaN
                                                 else Num (binary64 (of_nat (parseDigits ds)))))),
                            rawState = rawSt \<rparr>,
                          updatedDate))"

text \<open>
  The loop of \<^verbatim>\<open>parseText\<close> calls \<^verbatim>\<open>parseLine\<close> inside \<^verbatim>\<open>try\<close>. To say what
  the \<^verbatim>\<open>catch\<close> clause does, the loop is written for any line parser that returns
  (\<open>Inr\<close>) or throws (\<open>Inl\<close>) an \<^verbatim>\<open>Error\<close> with its message or some other value.
  The other statements of the \<^verbatim>\<open>try\<close> block (building a \<^verbatim>\<open>Date\<close>, \<^verbatim>\<open>isNaN\<close>,
  \<^verbatim>\<open>push\<close>) throw nothing.
\<close>

datatype thrown = ErrorObject string | OtherValue

type_synonym LineParser =
  "string \<Rightarrow> string option \<Rightarrow> string option \<Rightarrow> thrown + (BatteryEvent \<times> string option) option"

record LoopState =
  lsEvents :: "BatteryEvent list"
  lsErrors :: "string list"
  lsStartDate :: "int option"
  lsLastSeenDate :: "string option"

text \<open>The body of the loop at index \<open>i\<close> (from 0) of the non-empty trimmed lines.\<close>

definition lineStep ::
  "LineParser \<Rightarrow> Platform \<Rightarrow> string option \<Rightarrow> nat \<Rightarrow> string \<Rightarrow> LoopState \<Rightarrow> LoopState"
where
  "lineStep lp pf previousDay i line st =
     (case lp line (lsLastSeenDate st) previousDay of
        Inl ex \<Rightarrow>
          st\<lparr>lsErrors := lsErrors st @
               [''Line '' @ showNat (i + 1) @ '': '' @
                (case ex of ErrorObject msg \<Rightarrow> msg | OtherValue \<Rightarrow> ''Parse error'')]\<rparr>
      | Inr None \<Rightarrow> st
      | Inr (Some (event, updatedDate)) \<Rightarrow>
          (let st1 = (case given updatedDate of
                        Some d \<Rightarrow> st\<lparr>lsLastSeenDate := Some d\<rparr>
                      | None \<Rightarrow> st)
           in case dateParse pf (timestamp event) of
                None \<Rightarrow>
                  st1\<lparr>lsErrors := lsErrors st1 @
                        [''Line '' @ showNat (i + 1) @ '': Invalid timestamp: '' @
                         timestamp event]\<rparr>
              | Some t \<Rightarrow>
                  st1\<lparr>lsStartDate := (case lsStartDate st1 of None \<Rightarrow> Some t | Some d \<Rightarrow> Some d),
                      lsEvents := lsEvents st1 @ [event]\<rparr>))"

fun parseLoop ::
  "LineParser \<Rightarrow> Platform \<Rightarrow> string option \<Rightarrow> nat \<Rightarrow> string list \<Rightarrow> LoopState \<Rightarrow> LoopState"
where
  "parseLoop lp pf previousDay i [] st = st"
| "parseLoop lp pf previousDay i (line # rest) st =
     parseLoop lp pf previousDay (Suc i) rest (lineStep lp pf previousDay i line st)"

definition initialState :: LoopState where
  "initialState = \<lparr> lsEvents = [], lsErrors = [], lsStartDate = None, lsLastSeenDate = None \<rparr>"

definition textLines :: "string \<Rightarrow> string list" where
  "textLines text = filter (\<lambda>line. 0 < length line) (map trim (splitLines text))"

fun firstFullDate :: "string list \<Rightarrow> string option" where
  "firstFullDate [] = None"
| "firstFullDate (line # rest) =
     (case matchTimestamp line of
        Some (Some d, t) \<Rightarrow> if d \<noteq> [] then Some d else firstFullDate rest
      | _ \<Rightarrow> firstFullDate rest)"

definition previousDayFor :: "Platform \<Rightarrow> string list \<Rightarrow> string option" where
  "previousDayFor pf ls = map_option (previousDayOf pf) (firstFullDate ls)"

text \<open>The events in the order in which the loop pushed them, before offsets and sort.\<close>

definition parsedState :: "LineParser \<Rightarrow> Platform \<Rightarrow> string \<Rightarrow> LoopState" where
  "parsedState lp pf text =
     parseLoop lp pf (previousDayFor pf (textLines text)) 0 (textLines text) initialState"

text \<open>\<^verbatim>\<open>Math.round((eventTime - firstTimestamp) / (1000 * 60))\<close>, and the loop
  that stores it in every event; \<open>first\<close> is \<^verbatim>\<open>events[0]\<close> before the sort.\<close>

definition offsetFrom :: "Platform \<Rightarrow> BatteryEvent \<Rightarrow> BatteryEvent \<Rightarrow> jsnum" where
  "offsetFrom pf first e =
     jround (jdiv (rnd pf)
               (jsub (rnd pf) (getTime pf (timestamp e)) (getTime pf (timestamp first)))
               (Num 60000))"

definition computeOffsets :: "Platform \<Rightarrow> BatteryEvent list \<Rightarrow> BatteryEvent list" where
  "computeOffsets pf evs =
     (case evs of
        [] \<Rightarrow> []
      | first # _ \<Rightarrow> map (\<lambda>e. e\<lparr>minutesOffset := offsetFrom pf first e\<rparr>) evs)"

text \<open>
  \<^verbatim>\<open>events.sort((a, b) => new Date(a.timestamp).getTime() - new Date(b.timestamp).getTime())\<close>.
  The sort of ECMAScript 2019 is stable, and on instants the comparator is a
  consistent order, so the result is the stable sort by the instant: \<open>sort_key\<close>. The
  loop pushes only events whose timestamp parses (\<open>parseLoop_valid\<close> below), so the
  key's value for a timestamp that does not parse is never used.
\<close>

definition timeKey :: "Platform \<Rightarrow> BatteryEvent \<Rightarrow> int" where
  "timeKey pf e = (case dateParse pf (timestamp e) of Some t \<Rightarrow> t | None \<Rightarrow> 0)"

definition parseTextWith :: "LineParser \<Rightarrow> Platform \<Rightarrow> string \<Rightarrow> ParsedBatteryData" where
  "parseTextWith lp pf text =
     (let st = parsedState lp pf text;
          evs = sort_key (timeKey pf) (computeOffsets pf (lsEvents st))
      in \<lparr> events = evs,
           startDate = lsStartDate st,
           errors = lsErrors st,
           metadata =
             \<lparr> totalEvents = length evs,
               hasEnergyData = list_ex (\<lambda>e. mWh e \<noteq> None) evs,
               timeRange =
                 \<lparr> rangeStart = (case evs of [] \<Rightarrow> [] | e # _ \<Rightarrow> timestamp e),
                   rangeEnd = (if evs = [] then [] else timestamp (last evs)) \<rparr> \<rparr> \<rparr>)"

text \<open>\<^verbatim>\<open>parseText\<close>: the loop with \<^verbatim>\<open>parseLine\<close>, which throws nothing.\<close>

definition lineParser :: "Platform \<Rightarrow> LineParser" where
  "lineParser pf line lastSeenDate previousDay =
     Inr (parseLine (today pf) line lastSeenDate previousDay)"

definition parseText :: "Platform \<Rightarrow> string \<Rightarrow> ParsedBatteryData" where
  "parseText pf text = parseTextWith (lineParser pf) pf text"


text \<open>
  The explicit date that a line hands on to the lines after it: group 1 of the
  timestamp of a line that \<^verbatim>\<open>parseLine\<close> does not skip (whether it skips a line
  depends on the line alone).
\<close>

definition lineDate :: "string \<Rightarrow> string option" where
  "lineDate line =
     (case parseLine [] line None None of
        None \<Rightarrow> None
      | Some r \<Rightarrow>
          (case matchTimestamp (lineParts line ! 0) of
             Some (Some d, t) \<Rightarrow> Some d
           | _ \<Rightarrow> None))"

text \<open>The time of a line: group 2 of its timestamp.\<close>

definition lineTime :: "string \<Rightarrow> string option" where
  "lineTime line = map_option snd (matchTimestamp (lineParts line ! 0))"

section \<open>Session detection\<close>

record BatterySession =
  sessionId :: nat
  startTime :: string
  endTime :: string
  startPct :: int
  endPct :: int
  usedPct :: int
  startmWh :: "jsnum option"
  endmWh :: "jsnum option"
  usedmWh :: "jsnum option"
  durationMin :: jsnum
  activeMinutes :: jsnum
  idleMinutes :: jsnum
  chargingMinutes :: jsnum
  activeDrainPct :: int
  idleDrainPct :: int
  activeRate_pct_per_hr :: jsnum
  idleRate_pct_per_hr :: jsnum
  activeRate_mWh_per_hr :: "jsnum option"
  idleRate_mWh_per_hr :: "jsnum option"
  sessionEvents :: "BatteryEvent list"
  isComplete :: bool

record Settings =
  fullChargeThreshold :: int

record Summary =
  totalSessions :: nat
  avgScreenOnTime :: jsnum
  avgActiveDrain :: jsnum
  avgIdleDrain :: jsnum

record SessionAnalysis =
  sessions :: "BatterySession list"
  fullChargeEvents :: "nat list"
  settings :: Settings
  summary :: Summary

subsection \<open>Full-charge events\<close>

text \<open>
  The threshold is an integer, as the percentages are: the callers pass the default 98
  or the value of a slider with step 1.
  \<open>isFullCharge\<close> is the test of \<^verbatim>\<open>findFullChargeEvents\<close> at index \<open>i\<close>
  (\<^verbatim>\<open>prevEvent\<close> is null at 0).
\<close>

definition isFullCharge :: "BatteryEvent list \<Rightarrow> int \<Rightarrow> nat \<Rightarrow> bool" where
  "isFullCharge evs threshold i =
     (percent (evs ! i) \<ge> threshold
      \<or> (state (evs ! i) = Charging \<and> percent (evs ! i) \<ge> threshold - 2)
      \<or> (i > 0 \<and> percent (evs ! (i - 1)) < threshold \<and> percent (evs ! i) \<ge> threshold))"

text \<open>One iteration of the loop: \<open>acc\<close> is \<^verbatim>\<open>fullChargeIndices\<close>.\<close>

definition fullChargeStep :: "BatteryEvent list \<Rightarrow> int \<Rightarrow> nat \<Rightarrow> nat list \<Rightarrow> nat list" where
  "fullChargeStep evs threshold i acc =
     (if isFullCharge evs threshold i
      then (if acc = [] \<or> int i - int (last acc) > 5 then acc @ [i] else acc)
      else acc)"

definition findFullChargeEvents :: "BatteryEvent list \<Rightarrow> int \<Rightarrow> nat list" where
  "findFullChargeEvents evs threshold =
     fold (fullChargeStep evs threshold) [0..<length evs] []"

subsection \<open>Carving sessions\<close>

text \<open>
  \<^verbatim>\<open>xs.slice(a, b)\<close> for indices \<open>a, b \<ge> 0\<close>. \<open>sessionEnd\<close> and \<open>dischargeStart\<close>
  are the indices that the loop of \<^verbatim>\<open>createSessions\<close> computes for the \<open>i\<close>-th
  boundary. (For an empty event list the source's \<^verbatim>\<open>events.length - 1\<close> is \<open>-1\<close> and
  the slice is empty; here the difference is 0 and the slice is empty as well.)
\<close>

definition slice :: "'a list \<Rightarrow> nat \<Rightarrow> nat \<Rightarrow> 'a list" where
  "slice xs a b = take (b - a) (drop a xs)"

definition sessionEnd :: "BatteryEvent list \<Rightarrow> nat list \<Rightarrow> nat \<Rightarrow> nat" where
  "sessionEnd evs fce i = (if i < length fce - 1 then fce ! (i + 1) else length evs - 1)"

definition dischargeStart :: "BatteryEvent list \<Rightarrow> nat list \<Rightarrow> nat \<Rightarrow> nat" where
  "dischargeStart evs fce i =
     (case find (\<lambda>j. state (evs ! j) \<noteq> Charging)
             [fce ! i ..< min (Suc (sessionEnd evs fce i)) (length evs)] of
        Some j \<Rightarrow> j
      | None \<Rightarrow> fce ! i)"

definition sessionSlice :: "BatteryEvent list \<Rightarrow> nat list \<Rightarrow> nat \<Rightarrow> BatteryEvent list" where
  "sessionSlice evs fce i = slice evs (dischargeStart evs fce i) (Suc (sessionEnd evs fce i))"

text \<open>The positions of the input sequence that the slice for the \<open>i\<close>-th boundary holds.\<close>

definition sessionIndices :: "BatteryEvent list \<Rightarrow> nat list \<Rightarrow> nat \<Rightarrow> nat list" where
  "sessionIndices evs fce i = [dischargeStart evs fce i ..< Suc (sessionEnd evs fce i)]"

definition createSessions :: "BatteryEvent list \<Rightarrow> nat list \<Rightarrow> BatteryEvent list list" where
  "createSessions evs fce =
     (if fce = [] then [evs]
      else fold (\<lambda>i acc. if 1 < length (sessionSlice evs fce i)
                          then acc @ [sessionSlice evs fce i] else acc)
             [0..<length fce] [])"

subsection \<open>Analysing a session\<close>

text \<open>The accumulators of the loop of \<^verbatim>\<open>analyzeSession\<close>.\<close>

record Totals =
  accActiveMinutes :: jsnum
  accIdleMinutes :: jsnum
  accChargingMinutes :: jsnum
  accActiveDrainPct :: int
  accIdleDrainPct :: int
  accActiveDrainmWh :: jsnum
  accIdleDrainmWh :: jsnum

definition zeroTotals :: Totals where
  "zeroTotals =
     \<lparr> accActiveMinutes = Num 0, accIdleMinutes = Num 0, accChargingMinutes = Num 0,
       accActiveDrainPct = 0, accIdleDrainPct = 0,
       accActiveDrainmWh = Num 0, accIdleDrainmWh = Num 0 \<rparr>"

text \<open>
  \<^verbatim>\<open>Math.max(0, (b - a) / (1000 * 60))\<close> for the instants of two timestamps. Sums
  and differences of percentages are integers far below \<open>2\<^sup>5\<^sup>3\<close> and exact.
\<close>

definition minutesBetween :: "Platform \<Rightarrow> string \<Rightarrow> string \<Rightarrow> jsnum" where
  "minutesBetween pf a b =
     jmax0 (jdiv (rnd pf) (jsub (rnd pf) (getTime pf b) (getTime pf a)) (Num 60000))"

text \<open>\<^verbatim>\<open>a && b ? Math.max(0, a - b) : dflt\<close> for two optional energy readings.\<close>

definition drainBetween :: "Platform \<Rightarrow> jsnum option \<Rightarrow> jsnum option \<Rightarrow> jsnum option" where
  "drainBetween pf a b =
     (case (a, b) of
        (Some x, Some y) \<Rightarrow>
          if truthy x \<and> truthy y then Some (jmax0 (jsub (rnd pf) x y)) else None
      | _ \<Rightarrow> None)"

text \<open>The body of the loop for \<open>currentEvent\<close> and \<open>nextEvent\<close>: the \<^verbatim>\<open>switch\<close> has
  no case for \<open>Unknown\<close>.\<close>

definition pairStep :: "Platform \<Rightarrow> BatteryEvent \<Rightarrow> BatteryEvent \<Rightarrow> Totals \<Rightarrow> Totals" where
  "pairStep pf currentEvent nextEvent a =
     (let deltaMinutes = minutesBetween pf (timestamp currentEvent) (timestamp nextEvent);
          drainPct = max 0 (percent currentEvent - percent nextEvent);
          drainmWh = (case drainBetween pf (mWh currentEvent) (mWh nextEvent) of
                        Some d \<Rightarrow> d | None \<Rightarrow> Num 0)
      in case state currentEvent of
           Active \<Rightarrow>
             a\<lparr>accActiveMinutes := jadd (rnd pf) (accActiveMinutes a) deltaMinutes,
               accActiveDrainPct := accActiveDrainPct a + drainPct,
               accActiveDrainmWh := jadd (rnd pf) (accActiveDrainmWh a) drainmWh\<rparr>
         | Idle \<Rightarrow>
             a\<lparr>accIdleMinutes := jadd (rnd pf) (accIdleMinutes a) deltaMinutes,
               accIdleDrainPct := accIdleDrainPct a + drainPct,
               accIdleDrainmWh := jadd (rnd pf) (accIdleDrainmWh a) drainmWh\<rparr>
         | Charging \<Rightarrow>
             a\<lparr>accChargingMinutes := jadd (rnd pf) (accChargingMinutes a) deltaMinutes\<rparr>
         | Unknown \<Rightarrow> a)"

text \<open>The loop over \<open>i = 0 .. length - 2\<close>, as a recursion over the consecutive pairs.\<close>

fun accumulate :: "Platform \<Rightarrow> BatteryEvent list \<Rightarrow> Totals \<Rightarrow> Totals" where
  "accumulate pf (currentEvent # nextEvent # rest) a =
     accumulate pf (nextEvent # rest) (pairStep pf currentEvent nextEvent a)"
| "accumulate pf [e] a = a"
| "accumulate pf [] a = a"

definition createEmptySession :: "nat \<Rightarrow> BatterySession" where
  "createEmptySession sid =
     \<lparr> sessionId = sid, startTime = [], endTime = [], startPct = 0, endPct = 0, usedPct = 0,
       startmWh = None, endmWh = None, usedmWh = None,
       durationMin = Num 0, activeMinutes = Num 0, idleMinutes = Num 0,
       chargingMinutes = Num 0, activeDrainPct = 0, idleDrainPct = 0,
       activeRate_pct_per_hr = Num 0, idleRate_pct_per_hr = Num 0,
       activeRate_mWh_per_hr = None, idleRate_mWh_per_hr = None,
       sessionEvents = [], isComplete = False \<rparr>"

text \<open>\<^verbatim>\<open>minutes > 0 ? drain / (minutes / 60) : 0\<close>.\<close>

definition hourlyRate :: "Platform \<Rightarrow> jsnum \<Rightarrow> jsnum \<Rightarrow> jsnum" where
  "hourlyRate pf drain minutes = jdiv (rnd pf) drain (jdiv (rnd pf) minutes (Num 60))"

definition analyzeSession :: "Platform \<Rightarrow> BatteryEvent list \<Rightarrow> nat \<Rightarrow> BatterySession" where
  "analyzeSession pf evs sid =
     (if evs = [] then createEmptySession sid
      else
        let firstEvent = hd evs;
            lastEvent = last evs;
            a = accumulate pf evs zeroTotals
        in \<lparr> sessionId = sid,
             startTime = timestamp firstEvent,
             endTime = timestamp lastEvent,
             startPct = percent firstEvent,
             endPct = percent lastEvent,
             usedPct = max 0 (percent firstEvent - percent lastEvent),
             startmWh = mWh firstEvent,
             endmWh = mWh lastEvent,
             usedmWh = drainBetween pf (mWh firstEvent) (mWh lastEvent),
             durationMin = minutesBetween pf (timestamp firstEvent) (timestamp lastEvent),
             activeMinutes = accActiveMinutes a,
             idleMinutes = accIdleMinutes a,
             chargingMinutes = accChargingMinutes a,
             activeDrainPct = accActiveDrainPct a,
             idleDrainPct = accIdleDrainPct a,
             activeRate_pct_per_hr =
               (if jpos (accActiveMinutes a)
                then hourlyRate pf (Num (of_int (accActiveDrainPct a))) (accActiveMinutes a)
                else Num 0),
             idleRate_pct_per_hr =
               (if jpos (accIdleMinutes a)
                then hourlyRate pf (Num (of_int (accIdleDrainPct a))) (accIdleMinutes a)
                else Num 0),
             activeRate_mWh_per_hr =
               (if jpos (accActiveMinutes a) \<and> jpos (accActiveDrainmWh a)
                then Some (hourlyRate pf (accActiveDrainmWh a) (accActiveMinutes a))
                else None),
             idleRate_mWh_per_hr =
               (if jpos (accIdleMinutes a) \<and> jpos (accIdleDrainmWh a)
                then Some (hourlyRate pf (accIdleDrainmWh a) (accIdleMinutes a))
                else None),
             sessionEvents = evs,
             isComplete = (percent lastEvent < percent firstEvent) \<rparr>)"

subsection \<open>Summary and analysis\<close>

definition zeroSummary :: Summary where
  "zeroSummary =
     \<lparr> totalSessions = 0, avgScreenOnTime = Num 0, avgActiveDrain = Num 0,
       avgIdleDrain = Num 0 \<rparr>"

text \<open>\<^verbatim>\<open>xs.reduce((sum, s) => sum + f(s), 0)\<close>.\<close>

definition reduceSum :: "Platform \<Rightarrow> ('a \<Rightarrow> jsnum) \<Rightarrow> 'a list \<Rightarrow> jsnum" where
  "reduceSum pf f xs = foldl (\<lambda>sum s. jadd (rnd pf) sum (f s)) (Num 0) xs"

definition calculateSummary :: "Platform \<Rightarrow> BatterySession list \<Rightarrow> Summary" where
  "calculateSummary pf ss =
     (let completeSessions = filter isComplete ss in
      if length completeSessions = 0 then zeroSummary
      else
        let n = Num (of_nat (length completeSessions));
            totalActiveMinutes = reduceSum pf activeMinutes completeSessions;
            totalActiveDrain = reduceSum pf activeRate_pct_per_hr completeSessions;
            totalIdleDrain = reduceSum pf idleRate_pct_per_hr completeSessions
        in \<lparr> totalSessions = length completeSessions,
             avgScreenOnTime = jround (jdiv (rnd pf) totalActiveMinutes n),
             avgActiveDrain = toFixed2 (rnd pf) (jdiv (rnd pf) totalActiveDrain n),
             avgIdleDrain = toFixed2 (rnd pf) (jdiv (rnd pf) totalIdleDrain n) \<rparr>)"

definition createEmptyAnalysis :: "int \<Rightarrow> SessionAnalysis" where
  "createEmptyAnalysis threshold =
     \<lparr> sessions = [], fullChargeEvents = [],
       settings = \<lparr> fullChargeThreshold = threshold \<rparr>,
       summary = zeroSummary \<rparr>"

definition DEFAULT_FULL_CHARGE_THRESHOLD :: int where
  "DEFAULT_FULL_CHARGE_THRESHOLD = 98"

definition detectSessions :: "Platform \<Rightarrow> ParsedBatteryData \<Rightarrow> int \<Rightarrow> SessionAnalysis" where
  "detectSessions pf data threshold =
     (if length (events data) = 0 then createEmptyAnalysis threshold
      else
        let fce = findFullChargeEvents (events data) threshold;
            carved = createSessions (events data) fce;
            analyzedSessions =
              map (\<lambda>(session, index). analyzeSession pf session (index + 1))
                (zip carved [0..<length carved])
        in \<lparr> sessions = analyzedSessions,
             fullChargeEvents = fce,
             settings = \<lparr> fullChargeThreshold = threshold \<rparr>,
             summary = calculateSummary pf analyzedSessions \<rparr>)"

section \<open>Exact quantities\<close>

text \<open>
  Three notions that the properties below speak of and the program does not compute.
  \<open>stateMillis pf s evs\<close> is the exact number of milliseconds in the intervals between
  consecutive events of \<open>evs\<close> that start at an event of state \<open>s\<close>. \<open>nearBy u k x y\<close>
  says that the computed number \<open>x\<close> is the exact number \<open>y\<close> up to \<open>k\<close> roundings of
  relative error at most \<open>u\<close>. \<open>roundsTo q k\<close> says that \<open>k\<close> is the integer nearest to
  \<open>q\<close>, the larger of the two on a tie.
\<close>

definition stateMillis :: "Platform \<Rightarrow> BatteryState \<Rightarrow> BatteryEvent list \<Rightarrow> int" where
  "stateMillis pf s evs =
     sum_list (map (\<lambda>(c, n). timeKey pf n - timeKey pf c)
       (filter (\<lambda>(c, n). state c = s) (zip evs (tl evs))))"


definition nearBy :: "rat \<Rightarrow> nat \<Rightarrow> rat \<Rightarrow> rat \<Rightarrow> bool" where
  "nearBy u k x y \<longleftrightarrow> (1 - u) ^ k * y \<le> x \<and> x \<le> (1 + u) ^ k * y"

section \<open>Sample platforms\<close>

text \<open>
  Two platforms for the examples. Both read \<^verbatim>\<open>YYYY-MM-DD H:MM:SS\<close> strictly (one space,
  a date of the calendar, nothing after the seconds) as a time in UTC and take the day
  before a date in UTC; the current date is fixed. \<open>utcPlatform\<close> rounds to binary64,
  \<open>exactPlatform\<close> computes exactly.
\<close>

definition isLeap :: "nat \<Rightarrow> bool" where
  "isLeap y = (y mod 4 = 0 \<and> (y mod 100 \<noteq> 0 \<or> y mod 400 = 0))"

definition daysInMonth :: "nat \<Rightarrow> nat \<Rightarrow> nat" where
  "daysInMonth y m =
     (if m = 2 then (if isLeap y then 29 else 28)
      else if m \<in> set [4, 6, 9, 11] then 30 else 31)"

text \<open>Days from 1970-01-01 to the given date of the proleptic Gregorian calendar.\<close>

definition daysFromCivil :: "nat \<Rightarrow> nat \<Rightarrow> nat \<Rightarrow> int" where
  "daysFromCivil y m d =
     (let y1 = (if m \<le> 2 then int y - 1 else int y);
          era = y1 div 400;
          yoe = y1 - era * 400;
          doy = (153 * (if 2 < m then int m - 3 else int m + 9) + 2) div 5 + int d - 1;
          doe = yoe * 365 + yoe div 4 - yoe div 100 + doy
      in era * 146097 + doe - 719468)"

definition civilOf :: "string \<Rightarrow> (nat \<times> nat \<times> nat) option" where
  "civilOf d =
     (let y = parseDigits (take 4 d); m = parseDigits (take 2 (drop 5 d));
          dd = parseDigits (take 2 (drop 8 d))
      in if 1 \<le> m \<and> m \<le> 12 \<and> 1 \<le> dd \<and> dd \<le> daysInMonth y m then Some (y, m, dd) else None)"

definition utcDateParse :: "string \<Rightarrow> int option" where
  "utcDateParse s =
     (case matchDate s of
        None \<Rightarrow> None
      | Some (d, rest) \<Rightarrow>
          (case rest of
             [] \<Rightarrow> None
           | sp # tm \<Rightarrow>
               if sp = CHR '' '' \<and> matchTime tm = Some tm then
                 (case civilOf d of
                    None \<Rightarrow> None
                  | Some (y, m, dd) \<Rightarrow>
                      (let k = length tm - 6;
                           h = parseDigits (take k tm);
                           mi = parseDigits (take 2 (drop (k + 1) tm));
                           sec = parseDigits (take 2 (drop (k + 4) tm))
                       in if h < 24 \<and> mi < 60 \<and> sec < 60
                          then Some ((((daysFromCivil y m dd * 24 + int h) * 60 + int mi) * 60
                                      + int sec) * 1000)
                          else None))
               else None))"

definition pad2 :: "nat \<Rightarrow> string" where
  "pad2 n = (if n < 10 then ''0'' @ showNat n else showNat n)"

definition utcPreviousDay :: "string \<Rightarrow> string" where
  "utcPreviousDay s =
     (case (if matchDate s = Some (s, []) then civilOf s else None) of
        None \<Rightarrow> ''NaN-NaN-NaN''
      | Some (y, m, d) \<Rightarrow>
          (let (y1, m1, d1) =
                 (if 1 < d then (y, m, d - 1)
                  else if 1 < m then (y, m - 1, daysInMonth y (m - 1))
                  else (y - 1, 12, 31))
           in showNat y1 @ ''-'' @ pad2 m1 @ ''-'' @ pad2 d1))"

definition utcPlatform :: Platform where
  "utcPlatform =
     \<lparr> dateParse = utcDateParse, previousDayOf = utcPreviousDay,
       today = ''2025-09-01'', rnd = binary64 \<rparr>"

definition exactPlatform :: Platform where
  "exactPlatform =
     \<lparr> dateParse = utcDateParse, previousDayOf = utcPreviousDay,
       today = ''2025-09-01'', rnd = (\<lambda>x. x) \<rparr>"

section \<open>Sample data\<close>

definition sampleEvent :: "string \<Rightarrow> BatteryState \<Rightarrow> int \<Rightarrow> jsnum option \<Rightarrow> BatteryEvent" where
  "sampleEvent ts st p e =
     \<lparr> timestamp = ts, minutesOffset = Num 0, state = st, percent = p, mWh = e,
       rawState = [] \<rparr>"

text \<open>A log with a full charge at the start and another one six events later.\<close>

definition twoCharges :: "BatteryEvent list" where
  "twoCharges =
     [sampleEvent ''2025-08-25 08:00:00'' Active 100 None,
      sampleEvent ''2025-08-25 09:00:00'' Active 90 None,
      sampleEvent ''2025-08-25 10:00:00'' Active 80 None,
      sampleEvent ''2025-08-25 11:00:00'' Active 70 None,
      sampleEvent ''2025-08-25 12:00:00'' Active 60 None,
      sampleEvent ''2025-08-25 13:00:00'' Active 50 None,
      sampleEvent ''2025-08-25 14:00:00'' Active 100 None,
      sampleEvent ''2025-08-25 15:00:00'' Active 90 None]"

text \<open>Three events one second and then 31 seconds apart, all of them active.\<close>

definition roundedGaps :: "BatteryEvent list" where
  "roundedGaps =
     [sampleEvent ''2025-08-25 08:00:00'' Active 100 None,
      sampleEvent ''2025-08-25 08:00:01'' Active 100 None,
      sampleEvent ''2025-08-25 08:00:32'' Active 99 None]"

text \<open>Thirty active minutes, then an interval of 1410 minutes that starts at an event
  of unknown state.\<close>

definition unknownGap :: "BatteryEvent list" where
  "unknownGap =
     [sampleEvent ''2025-08-24 08:00:00'' Active 100 None,
      sampleEvent ''2025-08-24 08:30:00'' Unknown 95 None,
      sampleEvent ''2025-08-25 08:00:00'' Idle 60 None]"

text \<open>A parse result that holds the given events (for calls of \<^verbatim>\<open>detectSessions\<close>).\<close>

definition sampleData :: "BatteryEvent list \<Rightarrow> ParsedBatteryData" where
  "sampleData evs =
     \<lparr> events = evs, startDate = None, errors = [],
       metadata = \<lparr> totalEvents = length evs, hasEnergyData = False,
                    timeRange = \<lparr> rangeStart = [], rangeEnd = [] \<rparr> \<rparr> \<rparr>"


text \<open>
  Sample texts. In \<open>timeOnlyLog\<close> a time-only line follows a dated line; in
  \<open>outOfOrderLog\<close> the second line is a day earlier than the first; in
  \<open>skippedDateLog\<close> the dated line has no percentage and \<^verbatim>\<open>parseLine\<close> skips it;
  \<open>badDateLog\<close> has a date that is not of the calendar.
\<close>

definition tabbed :: "string list \<Rightarrow> string" where
  "tabbed cols = foldr (\<lambda>c acc. if acc = [] then c else c @ [CHR 0x09] @ acc) cols []"

definition newline :: string where
  "newline = [CHR 0x0A]"

definition timeOnlyLog :: string where
  "timeOnlyLog =
     tabbed [''2025-08-25 08:00:00'', ''Active'', ''100 %''] @ newline @
     tabbed [''08:30:00'', ''Active'', ''95 %'']"

definition outOfOrderLog :: string where
  "outOfOrderLog =
     tabbed [''2025-08-25 08:00:00'', ''Active'', ''100 %''] @ newline @
     tabbed [''2025-08-24 08:00:00'', ''Active'', ''90 %'']"

definition skippedDateLog :: string where
  "skippedDateLog =
     tabbed [''2025-08-25 08:00:00'', ''Active'', ''Battery''] @ newline @
     tabbed [''08:30:00'', ''Active'', ''95 %'']"

definition badDateLog :: string where
  "badDateLog = tabbed [''2025-13-45 08:00:00'', ''Active'', ''100 %'']"

section \<open>Properties\<close>

subsection \<open>Evaluating numbers\<close>

lemma floor_rat_numeral:
  "\<lfloor>(numeral a :: rat) / numeral b\<rfloor> = numeral a div numeral b"
  "\<lfloor>- (numeral a :: rat) / numeral b\<rfloor> = - numeral a div numeral b"
  "\<lfloor>- ((numeral a :: rat) / numeral b)\<rfloor> = - numeral a div numeral b"
  "\<lfloor>(1 :: rat) / numeral b\<rfloor> = 1 div numeral b"
  using floor_divide_of_int_eq [of "numeral a" "numeral b", where ?'a = rat]
    floor_divide_of_int_eq [of "- numeral a" "numeral b", where ?'a = rat]
    floor_divide_of_int_eq [of 1 "numeral b", where ?'a = rat]
  by simp_all

lemma powi2_less_cancel: "(2::rat) powi a < 2 powi b \<Longrightarrow> a < b"
  using power_int_increasing [of b a "2::rat"] by (cases "a < b") auto

lemma expo_eq:
  "0 < x \<Longrightarrow> power_int 2 e \<le> x \<Longrightarrow> x < power_int 2 (e + 1) \<Longrightarrow> nat \<bar>e\<bar> \<le> f
   \<Longrightarrow> expo f x = e"
proof (induction f arbitrary: x e)
  case 0
  then have "e = 0" by simp
  then show ?case by simp
next
  case (Suc f)
  consider (big) "2 \<le> x" | (small) "x < 1" | (mid) "1 \<le> x" "x < 2" by linarith
  then show ?case
  proof cases
    case big
    have e1: "1 \<le> e" using powi2_less_cancel [of 1 "e + 1"] big Suc.prems(3) by simp
    have a: "power_int 2 (e - 1) \<le> x / 2" using Suc.prems(2) by (simp add: power_int_diff)
    have b: "x / 2 < power_int 2 (e - 1 + 1)" using Suc.prems(3) by (simp add: power_int_add)
    have "expo f (x / 2) = e - 1"
      using Suc.IH [of "x / 2" "e - 1"] a b Suc.prems(1,4) e1 by simp
    then show ?thesis using big by simp
  next
    case small
    have e1: "e < 0" using powi2_less_cancel [of e 0] small Suc.prems(2) by simp
    have a: "power_int 2 (e + 1) \<le> x * 2" using Suc.prems(2) by (simp add: power_int_add)
    have b: "x * 2 < power_int 2 (e + 1 + 1)" using Suc.prems(3) by (simp add: power_int_add)
    have "expo f (x * 2) = e + 1"
      using Suc.IH [of "x * 2" "e + 1"] a b Suc.prems(1,4) e1 by simp
    then show ?thesis using small by simp
  next
    case mid
    have "e < 1" using powi2_less_cancel [of e 1] mid Suc.prems(2) by simp
    moreover have "0 < e + 1" using powi2_less_cancel [of 0 "e + 1"] mid Suc.prems(3) by simp
    ultimately have "e = 0" by simp
    then show ?thesis using mid by simp
  qed
qed

lemma roundHalfEven_near: "\<bar>q - of_int m\<bar> < 1 / 2 \<Longrightarrow> roundHalfEven q = m"
proof -
  assume h: "\<bar>q - of_int m\<bar> < 1 / 2"
  have "\<lfloor>q\<rfloor> = m \<or> \<lfloor>q\<rfloor> = m - 1" using h by (auto simp: floor_eq_iff abs_less_iff)
  then show ?thesis
  proof
    assume f: "\<lfloor>q\<rfloor> = m"
    have "q - of_int m < 1 / 2" using h by linarith
    then show ?thesis using f by (simp add: roundHalfEven_def Let_def)
  next
    assume f: "\<lfloor>q\<rfloor> = m - 1"
    have "1 / 2 < q - (of_int m - 1)" using h by linarith
    then show ?thesis using f by (simp add: roundHalfEven_def Let_def)
  qed
qed

text \<open>How \<open>binary64\<close> is evaluated: with the exponent \<open>e\<close> and the significand \<open>m\<close>.\<close>

lemma binary64_near:
  assumes "x \<noteq> 0" "power_int 2 e \<le> \<bar>x\<bar>" "\<bar>x\<bar> < power_int 2 (e + 1)" "\<bar>e\<bar> \<le> 1100"
    and "\<bar>\<bar>x\<bar> / power_int 2 (e - 52) - of_int m\<bar> < 1 / 2"
  shows "binary64 x = sgn x * of_int m * power_int 2 (e - 52)"
proof -
  have "expo 1100 \<bar>x\<bar> = e" using assms(1-4) by (intro expo_eq) auto
  then show ?thesis
    using assms(1) roundHalfEven_near [OF assms(5)] by (simp add: binary64_def Let_def)
qed

lemma binary64_0: "binary64 0 = 0"
  by (simp add: binary64_def)

lemma binary64_samples:
  "binary64 (- 86400000) = - 86400000"
  "binary64 (- 1440) = - 1440"
  "binary64 1800000 = 1800000"
  "binary64 30 = 30"
  by (subst binary64_near [where e = 26 and m = 5798205849600000], simp_all add: power_int_minus)
     (subst binary64_near [where e = 10 and m = 6333186975989760], simp_all add: power_int_minus,
      subst binary64_near [where e = 20 and m = 7730941132800000], simp_all add: power_int_minus,
      subst binary64_near [where e = 4 and m = 8444249301319680], simp_all add: power_int_minus)

subsection \<open>Rounding error\<close>

lemma expo_le:
  assumes "1 / 2 ^ f \<le> x"
  shows "power_int 2 (expo f x) \<le> x"
  using assms
proof (induction f arbitrary: x)
  case 0
  then show ?case by simp
next
  case (Suc f)
  have pos: "(0::rat) < 1 / 2 ^ f" by simp
  show ?case
  proof (cases "2 \<le> x")
    case True
    have "1 / 2 ^ f \<le> (1::rat)" by (simp add: divide_le_eq)
    moreover have "1 \<le> x / 2" using True by simp
    ultimately have "1 / 2 ^ f \<le> x / 2" by (rule order_trans)
    then have "power_int 2 (expo f (x / 2)) \<le> x / 2" by (rule Suc.IH)
    then show ?thesis using True by (simp add: power_int_add)
  next
    case False
    show ?thesis
    proof (cases "x < 1")
      case True
      have "1 / 2 ^ f \<le> x * 2" using Suc.prems by (simp add: field_simps)
      then have "power_int 2 (expo f (x * 2)) \<le> x * 2" by (rule Suc.IH)
      then show ?thesis using True False by (simp add: power_int_diff)
    next
      case False
      then show ?thesis using \<open>\<not> 2 \<le> x\<close> by simp
    qed
  qed
qed

lemma roundHalfEven_error: "\<bar>of_int (roundHalfEven q) - q\<bar> \<le> (1 / 2 :: rat)"
proof -
  have "of_int \<lfloor>q\<rfloor> \<le> q" "q < of_int \<lfloor>q\<rfloor> + 1" by linarith+
  then show ?thesis by (auto simp: roundHalfEven_def Let_def abs_le_iff)
qed

lemma binary64_error:
  assumes "1 / 2 ^ 1100 \<le> \<bar>x\<bar>"
  shows "\<bar>binary64 x - x\<bar> \<le> \<bar>x\<bar> / 2 ^ 53"
proof -
  have x0: "x \<noteq> 0" using assms by auto
  define e where "e = expo 1100 \<bar>x\<bar>"
  define w :: rat where "w = power_int 2 (e - 52)"
  have w0: "0 < w" by (simp add: w_def)
  have le: "power_int 2 e \<le> \<bar>x\<bar>" unfolding e_def using assms by (rule expo_le)
  have w: "w * 2 ^ 52 = power_int 2 e" by (simp add: w_def power_int_diff)
  define R where "R = roundHalfEven (\<bar>x\<bar> / w)"
  have b: "binary64 x = sgn x * of_int R * w"
    using x0 by (simp add: binary64_def Let_def e_def w_def R_def)
  have "\<bar>binary64 x - x\<bar> = \<bar>sgn x * (of_int R * w - \<bar>x\<bar>)\<bar>"
    by (simp add: b algebra_simps flip: abs_sgn mult_sgn_abs) (metis mult.commute mult_sgn_abs)
  also have "\<dots> = \<bar>of_int R * w - \<bar>x\<bar>\<bar>" using x0 by (simp add: abs_mult)
  also have "\<dots> = \<bar>of_int R - \<bar>x\<bar> / w\<bar> * w"
    using w0 by (simp add: abs_mult [symmetric] field_simps del: abs_mult abs_mult_pos)
  also have "\<dots> \<le> 1 / 2 * w"
    using roundHalfEven_error [of "\<bar>x\<bar> / w"] w0 unfolding R_def
    by (intro mult_right_mono) auto
  also have "\<dots> = power_int 2 e / 2 ^ 53" using w [symmetric] by simp
  also have "\<dots> \<le> \<bar>x\<bar> / 2 ^ 53" using le by (simp add: divide_right_mono)
  finally show ?thesis .
qed


lemma bernoulli_rat:
  assumes "0 \<le> u" "u \<le> 1"
  shows "1 - of_nat n * u \<le> ((1 - u) ^ n :: rat)"
proof (induction n)
  case 0
  then show ?case by simp
next
  case (Suc n)
  have "1 - of_nat (Suc n) * u \<le> (1 - u) * (1 - of_nat n * u)"
    using assms(1) by (simp add: algebra_simps)
  also have "\<dots> \<le> (1 - u) * (1 - u) ^ n"
    using Suc assms(2) by (intro mult_left_mono) auto
  finally show ?case by simp
qed

lemma nearBy_zero: "nearBy u k x 0 \<longleftrightarrow> x = 0"
  by (auto simp: nearBy_def)

lemma nearBy_nonneg:
  assumes "u \<le> 1" "0 \<le> y" "nearBy u k x y"
  shows "0 \<le> x"
proof -
  have "0 \<le> (1 - u) ^ k * y" using assms(1,2) by simp
  then show ?thesis using assms(3) by (simp add: nearBy_def)
qed

lemma nearBy_mono:
  assumes "0 \<le> u" "u \<le> 1" "0 \<le> y" "k \<le> k'" "nearBy u k x y"
  shows "nearBy u k' x y"
proof -
  have "(1 - u) ^ k' \<le> (1 - u) ^ k" using assms(1,2,4) by (intro power_decreasing) auto
  then have a: "(1 - u) ^ k' * y \<le> (1 - u) ^ k * y" using assms(3) by (rule mult_right_mono)
  have "(1 + u) ^ k \<le> (1 + u) ^ k'" using assms(1,4) by (intro power_increasing) auto
  then have b: "(1 + u) ^ k * y \<le> (1 + u) ^ k' * y" using assms(3) by (rule mult_right_mono)
  show ?thesis using assms(5) a b by (simp add: nearBy_def)
qed

lemma nearBy_add:
  assumes "nearBy u k x y" "nearBy u k x' y'"
  shows "nearBy u k (x + x') (y + y')"
  using assms by (simp add: nearBy_def distrib_left)

lemma nearBy_div:
  assumes "0 < c" "nearBy u k x y"
  shows "nearBy u k (x / c) (y / c)"
  using assms by (simp add: nearBy_def divide_right_mono)

lemma nearBy_rnd:
  fixes u L :: rat
  assumes "0 \<le> u" "u \<le> 1" "r 0 = 0" "\<forall>x. L \<le> \<bar>x\<bar> \<longrightarrow> \<bar>r x - x\<bar> \<le> u * \<bar>x\<bar>"
    and "nearBy u k x y" "0 \<le> y" "y = 0 \<or> L \<le> (1 - u) ^ k * y"
  shows "nearBy u (Suc k) (r x) y"
proof (cases "y = 0")
  case True
  then show ?thesis using assms(3,5) by (simp add: nearBy_zero)
next
  case False
  have x0: "0 \<le> x" using assms(2,6,5) by (rule nearBy_nonneg)
  have lo: "(1 - u) ^ k * y \<le> x" and hi: "x \<le> (1 + u) ^ k * y"
    using assms(5) by (simp_all add: nearBy_def)
  have "L \<le> \<bar>x\<bar>" using assms(7) False lo x0 by simp
  then have "\<bar>r x - x\<bar> \<le> u * x" using assms(4) x0 by fastforce
  then have r: "(1 - u) * x \<le> r x" "r x \<le> (1 + u) * x"
    by (simp_all add: abs_le_iff algebra_simps)
  have "(1 - u) * ((1 - u) ^ k * y) \<le> (1 - u) * x"
    using lo assms(2) by (intro mult_left_mono) auto
  moreover have "(1 + u) * x \<le> (1 + u) * ((1 + u) ^ k * y)"
    using hi assms(1) by (intro mult_left_mono) auto
  ultimately show ?thesis using r by (simp add: nearBy_def mult.assoc)
qed

lemma binary64_relative:
  "\<forall>x. 1 / 120000 \<le> \<bar>x\<bar> \<longrightarrow> \<bar>binary64 x - x\<bar> \<le> 1 / 2 ^ 53 * \<bar>x\<bar>"
proof (intro allI impI)
  fix x :: rat
  assume "1 / 120000 \<le> \<bar>x\<bar>"
  moreover have "(1::rat) / 2 ^ 1100 \<le> 1 / 120000" by simp
  ultimately have "1 / 2 ^ 1100 \<le> \<bar>x\<bar>" by (rule order_trans [rotated])
  then show "\<bar>binary64 x - x\<bar> \<le> 1 / 2 ^ 53 * \<bar>x\<bar>" using binary64_error [of x] by simp
qed

subsection \<open>Full-charge detection\<close>

lemma fullChargeStep_inv:
  assumes "sorted_wrt (<) acc" "\<forall>j \<in> set acc. j < k"
  shows "sorted_wrt (<) (fullChargeStep evs th k acc)"
    and "\<forall>j \<in> set (fullChargeStep evs th k acc). j < Suc k"
  using assms by (auto simp: fullChargeStep_def sorted_wrt_append less_Suc_eq)

lemma ffce_prefix_sorted:
  "sorted_wrt (<) (fold (fullChargeStep evs th) [0..<k] [])
   \<and> (\<forall>j \<in> set (fold (fullChargeStep evs th) [0..<k] []). j < k)"
proof (induction k)
  case 0
  show ?case by simp
next
  case (Suc k)
  then show ?case
    using fullChargeStep_inv [of "fold (fullChargeStep evs th) [0..<k] []" k evs th]
    by simp
qed

lemma ffce_prefix_iff:
  "i < k \<Longrightarrow>
   i \<in> set (fold (fullChargeStep evs th) [0..<k] []) \<longleftrightarrow>
     isFullCharge evs th i \<and>
     (filter (\<lambda>j. j < i) (fold (fullChargeStep evs th) [0..<k] []) = []
      \<or> int i - int (last (filter (\<lambda>j. j < i) (fold (fullChargeStep evs th) [0..<k] []))) > 5)"
proof (induction k)
  case 0
  then show ?case by simp
next
  case (Suc k)
  define acc where "acc = fold (fullChargeStep evs th) [0..<k] []"
  have bound: "\<forall>j \<in> set acc. j < k"
    using ffce_prefix_sorted [of evs th k] by (simp add: acc_def)
  have next_acc: "fold (fullChargeStep evs th) [0..<Suc k] [] = fullChargeStep evs th k acc"
    by (simp add: acc_def)
  have all: "filter (\<lambda>j. j < k) acc = acc"
    using bound by (simp add: filter_id_conv)
  have notin: "k \<notin> set acc" using bound by auto
  show ?case
  proof (cases "i = k")
    case True
    show ?thesis
      unfolding next_acc using True all notin
      by (auto simp: fullChargeStep_def)
  next
    case False
    then have ik: "i < k" using Suc.prems by simp
    have same: "filter (\<lambda>j. j < i) (fullChargeStep evs th k acc) = filter (\<lambda>j. j < i) acc"
      using ik by (auto simp: fullChargeStep_def)
    have mem: "i \<in> set (fullChargeStep evs th k acc) \<longleftrightarrow> i \<in> set acc"
      using False by (auto simp: fullChargeStep_def)
    show ?thesis
      unfolding next_acc same mem using Suc.IH [OF ik] by (simp add: acc_def)
  qed
qed

text \<open>
  C4. An index is recorded by \<^verbatim>\<open>findFullChargeEvents\<close> exactly when it is an index
  of the sequence at which one of the three tests holds (percent at or above the
  threshold; charging at or above the threshold minus 2; an upward crossing of the
  threshold from the previous event) and it is not suppressed: no boundary was
  recorded before it, or the last one recorded before it lies more than 5 positions
  back.
\<close>

theorem findFullChargeEvents_recorded_iff:
  "i \<in> set (findFullChargeEvents evs th) \<longleftrightarrow>
     i < length evs
     \<and> (percent (evs ! i) \<ge> th
        \<or> (state (evs ! i) = Charging \<and> percent (evs ! i) \<ge> th - 2)
        \<or> (i > 0 \<and> percent (evs ! (i - 1)) < th \<and> percent (evs ! i) \<ge> th))
     \<and> (filter (\<lambda>j. j < i) (findFullChargeEvents evs th) = []
        \<or> int i - int (last (filter (\<lambda>j. j < i) (findFullChargeEvents evs th))) > 5)"
proof (cases "i < length evs")
  case True
  show ?thesis
    using ffce_prefix_iff [OF True, of evs th] True
    by (simp add: findFullChargeEvents_def isFullCharge_def)
next
  case False
  then show ?thesis
    using ffce_prefix_sorted [of evs th "length evs"]
    by (auto simp: findFullChargeEvents_def)
qed

lemma upt_8: "[0..<8] = [0, 1, 2, 3, 4, 5, 6, 7]"
  by (simp add: eval_nat_numeral)

lemma twoCharges_boundaries: "findFullChargeEvents twoCharges 98 = [0, 6]"
  by (simp add: findFullChargeEvents_def twoCharges_def upt_8 fullChargeStep_def
      isFullCharge_def sampleEvent_def)

theorem findFullChargeEvents_recorded_iff_witness:
  "6 \<in> set (findFullChargeEvents twoCharges 98)
   \<and> filter (\<lambda>j. j < 6) (findFullChargeEvents twoCharges 98) = [0]
   \<and> 3 \<notin> set (findFullChargeEvents twoCharges 98)
   \<and> percent (twoCharges ! 3) < 98"
  using findFullChargeEvents_recorded_iff [of 6 twoCharges 98]
    findFullChargeEvents_recorded_iff [of 3 twoCharges 98]
  by (simp add: twoCharges_boundaries) (simp add: twoCharges_def sampleEvent_def)

subsection \<open>Empty input\<close>

lemma textLines_empty: "textLines [] = []"
  by (simp add: textLines_def trim_def)

lemma parseTextWith_empty:
  "parseTextWith lp pf [] =
     \<lparr> events = [], startDate = None, errors = [],
       metadata = \<lparr> totalEvents = 0, hasEnergyData = False,
                    timeRange = \<lparr> rangeStart = [], rangeEnd = [] \<rparr> \<rparr> \<rparr>"
  by (simp add: parseTextWith_def parsedState_def textLines_empty initialState_def
      computeOffsets_def)

text \<open>
  C7. Parsing the empty text gives no events, no errors, no start date and the metadata
  \<open>totalEvents = 0\<close>, \<open>hasEnergyData = false\<close>, an empty time range; and
  \<^verbatim>\<open>detectSessions\<close> on that result gives, for every threshold, no sessions, no
  full-charge events, a summary of zeros and the threshold in
  \<open>settings.fullChargeThreshold\<close>. The default threshold is 98.
\<close>

theorem empty_text_analysis:
  "parseText pf [] =
     \<lparr> events = [], startDate = None, errors = [],
       metadata = \<lparr> totalEvents = 0, hasEnergyData = False,
                    timeRange = \<lparr> rangeStart = [], rangeEnd = [] \<rparr> \<rparr> \<rparr>
   \<and> detectSessions pf (parseText pf []) th =
     \<lparr> sessions = [], fullChargeEvents = [],
       settings = \<lparr> fullChargeThreshold = th \<rparr>,
       summary = \<lparr> totalSessions = 0, avgScreenOnTime = Num 0, avgActiveDrain = Num 0,
                   avgIdleDrain = Num 0 \<rparr> \<rparr>
   \<and> DEFAULT_FULL_CHARGE_THRESHOLD = 98"
  by (simp add: parseText_def parseTextWith_empty detectSessions_def createEmptyAnalysis_def
      zeroSummary_def DEFAULT_FULL_CHARGE_THRESHOLD_def)

theorem empty_text_analysis_witness:
  "fullChargeThreshold
     (settings (detectSessions utcPlatform (parseText utcPlatform [])
        DEFAULT_FULL_CHARGE_THRESHOLD)) = 98
   \<and> sessions (detectSessions utcPlatform (parseText utcPlatform []) 95) = []"
proof -
  have a: "detectSessions utcPlatform (parseText utcPlatform []) 98 =
     \<lparr> sessions = [], fullChargeEvents = [],
       settings = \<lparr> fullChargeThreshold = 98 \<rparr>,
       summary = \<lparr> totalSessions = 0, avgScreenOnTime = Num 0, avgActiveDrain = Num 0,
                   avgIdleDrain = Num 0 \<rparr> \<rparr>"
    using empty_text_analysis [of utcPlatform 98] by blast
  have b: "detectSessions utcPlatform (parseText utcPlatform []) 95 =
     \<lparr> sessions = [], fullChargeEvents = [],
       settings = \<lparr> fullChargeThreshold = 95 \<rparr>,
       summary = \<lparr> totalSessions = 0, avgScreenOnTime = Num 0, avgActiveDrain = Num 0,
                   avgIdleDrain = Num 0 \<rparr> \<rparr>"
    using empty_text_analysis [of utcPlatform 95] by blast
  have c: "DEFAULT_FULL_CHARGE_THRESHOLD = 98"
    using empty_text_analysis [of utcPlatform 95] by blast
  show ?thesis unfolding c a b by simp
qed

subsection \<open>Energy fields of a session\<close>

lemma analyzeSession_energy:
  "startmWh (analyzeSession pf evs sid) = (if evs = [] then None else mWh (hd evs))"
  "endmWh (analyzeSession pf evs sid) = (if evs = [] then None else mWh (last evs))"
  "usedmWh (analyzeSession pf evs sid) =
     (if evs = [] then None else drainBetween pf (mWh (hd evs)) (mWh (last evs)))"
  by (simp_all add: analyzeSession_def createEmptySession_def Let_def)

text \<open>
  C8 as stated fails: \<open>startmWh\<close> is present when only the first event carries a
  reading. Here the first event reads 50000 mWh and the last event has no reading.
\<close>

theorem energy_fields_counterexample:
  "startmWh (analyzeSession utcPlatform
      [sampleEvent ''2025-08-25 08:00:00'' Active 100 (Some (Num 50000)),
       sampleEvent ''2025-08-25 09:00:00'' Active 90 None] 1) = Some (Num 50000)
   \<and> mWh (last [sampleEvent ''2025-08-25 08:00:00'' Active 100 (Some (Num 50000)),
                sampleEvent ''2025-08-25 09:00:00'' Active 90 None]) = None"
  by (simp add: analyzeSession_energy sampleEvent_def)

text \<open>
  C8, amended. For every session of \<^verbatim>\<open>analyzeSession\<close> over a non-empty slice,
  \<open>startmWh\<close> is exactly the reading of the first event and \<open>endmWh\<close> exactly the
  reading of the last event, each present or absent on its own. \<open>usedmWh\<close> is present
  only if both events carry a reading, and then it is \<open>max(0, startmWh - endmWh)\<close>; it is
  present whenever both readings are numbers other than 0.
\<close>

theorem energy_fields:
  assumes "evs \<noteq> []"
  shows "startmWh (analyzeSession pf evs sid) = mWh (hd evs)
    \<and> endmWh (analyzeSession pf evs sid) = mWh (last evs)
    \<and> (usedmWh (analyzeSession pf evs sid) \<noteq> None \<longrightarrow>
         (\<exists>a b. mWh (hd evs) = Some a \<and> mWh (last evs) = Some b
            \<and> usedmWh (analyzeSession pf evs sid) = Some (jmax0 (jsub (rnd pf) a b))))
    \<and> (\<forall>a b. mWh (hd evs) = Some (Num a) \<and> mWh (last evs) = Some (Num b)
            \<and> a \<noteq> 0 \<and> b \<noteq> 0 \<longrightarrow>
         usedmWh (analyzeSession pf evs sid) = Some (Num (max 0 (rnd pf (a - b)))))"
  using assms
  by (auto simp: analyzeSession_energy drainBetween_def jsub_def
      split: option.splits if_splits)

theorem energy_fields_witness:
  "usedmWh (analyzeSession exactPlatform
      [sampleEvent ''2025-08-25 08:00:00'' Active 100 (Some (Num 50000)),
       sampleEvent ''2025-08-25 09:00:00'' Idle 90 (Some (Num 45000))] 1) = Some (Num 5000)
   \<and> startmWh (analyzeSession exactPlatform
      [sampleEvent ''2025-08-25 08:00:00'' Active 100 (Some (Num 50000)),
       sampleEvent ''2025-08-25 09:00:00'' Idle 90 (Some (Num 45000))] 1) = Some (Num 50000)"
  using energy_fields [of "[sampleEvent ''2025-08-25 08:00:00'' Active 100 (Some (Num 50000)),
       sampleEvent ''2025-08-25 09:00:00'' Idle 90 (Some (Num 45000))]" exactPlatform 1]
  by (simp add: sampleEvent_def exactPlatform_def)

subsection \<open>Session slices\<close>

lemma findFullChargeEvents_sorted:
  "sorted_wrt (<) (findFullChargeEvents evs th)"
  "j \<in> set (findFullChargeEvents evs th) \<Longrightarrow> j < length evs"
  using ffce_prefix_sorted [of evs th "length evs"]
  by (auto simp: findFullChargeEvents_def)

lemma analyzeSession_events: "sessionEvents (analyzeSession pf evs sid) = evs"
  by (simp add: analyzeSession_def createEmptySession_def Let_def)

lemma fold_collect:
  "fold (\<lambda>i acc. if P i then acc @ [f i] else acc) xs acc0 = acc0 @ map f (filter P xs)"
  by (induction xs arbitrary: acc0) simp_all

lemma createSessions_kept:
  "fce \<noteq> [] \<Longrightarrow>
   createSessions evs fce =
     map (sessionSlice evs fce)
       (filter (\<lambda>i. 1 < length (sessionSlice evs fce i)) [0..<length fce])"
  by (simp add: createSessions_def fold_collect)

lemma detectSessions_sessionEvents:
  "map sessionEvents (sessions (detectSessions pf data th)) =
     (if events data = [] then []
      else createSessions (events data) (findFullChargeEvents (events data) th))"
proof -
  have "map sessionEvents (map (\<lambda>(session, index). analyzeSession pf session (index + 1))
          (zip cs [0..<length cs])) = cs" for cs
    by (simp add: analyzeSession_events case_prod_unfold o_def flip: map_map [of fst])
  then show ?thesis
    by (simp add: detectSessions_def createEmptyAnalysis_def Let_def)
qed

lemma slice_nth: "b \<le> length xs \<Longrightarrow> slice xs a b = map (\<lambda>k. xs ! k) [a..<b]"
  by (auto simp: slice_def list_eq_iff_nth_eq)

lemma sessionEnd_bounds:
  assumes "sorted_wrt (<) fce" "\<forall>j \<in> set fce. j < length evs" "i < length fce"
  shows "fce ! i \<le> sessionEnd evs fce i" "sessionEnd evs fce i < length evs"
proof -
  have lt: "fce ! i < length evs" using assms(2,3) by simp
  show "fce ! i \<le> sessionEnd evs fce i"
  proof (cases "i < length fce - 1")
    case True
    then have "fce ! i < fce ! (i + 1)"
      using assms(1) by (simp add: sorted_wrt_iff_nth_less)
    then show ?thesis using True by (simp add: sessionEnd_def)
  next
    case False
    then show ?thesis using lt by (simp add: sessionEnd_def)
  qed
  show "sessionEnd evs fce i < length evs"
  proof (cases "i < length fce - 1")
    case True
    then have "fce ! (i + 1) < length evs" using assms(2) by simp
    then show ?thesis using True by (simp add: sessionEnd_def)
  next
    case False
    then show ?thesis using lt by (simp add: sessionEnd_def)
  qed
qed

lemma find_Some_mem: "find P xs = Some x \<Longrightarrow> x \<in> set xs"
  by (induction xs) (auto split: if_splits)

lemma dischargeStart_bounds:
  assumes "fce ! i \<le> sessionEnd evs fce i"
  shows "fce ! i \<le> dischargeStart evs fce i" "dischargeStart evs fce i \<le> sessionEnd evs fce i"
proof -
  let ?xs = "[fce ! i ..< min (Suc (sessionEnd evs fce i)) (length evs)]"
  have "fce ! i \<le> dischargeStart evs fce i \<and> dischargeStart evs fce i \<le> sessionEnd evs fce i"
  proof (cases "find (\<lambda>j. state (evs ! j) \<noteq> Charging) ?xs")
    case None
    then show ?thesis using assms by (simp add: dischargeStart_def)
  next
    case (Some j)
    then have "j \<in> set ?xs" by (rule find_Some_mem)
    then show ?thesis using Some by (simp add: dischargeStart_def)
  qed
  then show "fce ! i \<le> dischargeStart evs fce i"
    and "dischargeStart evs fce i \<le> sessionEnd evs fce i" by simp_all
qed

lemma sessions_ordered:
  assumes "sorted_wrt (<) fce" "\<forall>j \<in> set fce. j < length evs" "i < j" "j < length fce"
  shows "sessionEnd evs fce i = fce ! (i + 1)"
    and "sessionEnd evs fce i \<le> dischargeStart evs fce j"
proof -
  have i1: "i < length fce - 1" using assms(3,4) by simp
  then show e: "sessionEnd evs fce i = fce ! (i + 1)" by (simp add: sessionEnd_def)
  have "fce ! (i + 1) \<le> fce ! j"
  proof (cases "i + 1 = j")
    case True
    then show ?thesis by simp
  next
    case False
    then have "i + 1 < j" using assms(3) by simp
    then have "fce ! (i + 1) < fce ! j"
      using assms(1,4) by (simp add: sorted_wrt_iff_nth_less)
    then show ?thesis by simp
  qed
  moreover have "fce ! j \<le> dischargeStart evs fce j"
    using dischargeStart_bounds(1) sessionEnd_bounds(1) [OF assms(1,2,4)] by blast
  ultimately show "sessionEnd evs fce i \<le> dischargeStart evs fce j" using e by simp
qed

text \<open>
  C1 as stated fails: the slice for boundary \<open>i\<close> runs through the event at boundary
  \<open>i + 1\<close> (\<^verbatim>\<open>events.slice(dischargeStart, sessionEnd + 1)\<close>), where the next slice
  starts when that event is not charging. In the sample log with full charges at
  positions 0 and 6, the event at position 6 is in both sessions.
\<close>

lemma twoCharges_spans:
  "sessionEnd twoCharges [0, 6] 0 = 6" "sessionEnd twoCharges [0, 6] (Suc 0) = 7"
  "dischargeStart twoCharges [0, 6] 0 = 0" "dischargeStart twoCharges [0, 6] (Suc 0) = 6"
  by (simp_all add: sessionEnd_def dischargeStart_def twoCharges_def sampleEvent_def
      upt_conv_Cons)

theorem session_slices_counterexample:
  "map sessionEvents (sessions (detectSessions utcPlatform (sampleData twoCharges) 98)) =
     [take 7 twoCharges, drop 6 twoCharges]
   \<and> twoCharges ! 6 \<in> set (take 7 twoCharges) \<inter> set (drop 6 twoCharges)
   \<and> set (sessionIndices twoCharges (findFullChargeEvents twoCharges 98) 0)
       \<inter> set (sessionIndices twoCharges (findFullChargeEvents twoCharges 98) 1) = {6}"
proof -
  have ne: "twoCharges \<noteq> []" by (simp add: twoCharges_def)
  have len: "length twoCharges = 8" by (simp add: twoCharges_def)
  have "createSessions twoCharges [0, 6] = [take 7 twoCharges, drop 6 twoCharges]"
    by (simp add: createSessions_def sessionSlice_def twoCharges_spans slice_def len
        upt_conv_Cons)
  then have a: "map sessionEvents (sessions (detectSessions utcPlatform (sampleData twoCharges) 98))
      = [take 7 twoCharges, drop 6 twoCharges]"
    using ne by (simp add: detectSessions_sessionEvents sampleData_def twoCharges_boundaries)
  have b: "twoCharges ! 6 \<in> set (take 7 twoCharges) \<inter> set (drop 6 twoCharges)"
    by (simp add: twoCharges_def)
  have c: "set (sessionIndices twoCharges (findFullChargeEvents twoCharges 98) 0)
       \<inter> set (sessionIndices twoCharges (findFullChargeEvents twoCharges 98) 1) = {6}"
    by (auto simp: twoCharges_boundaries sessionIndices_def twoCharges_spans)
  show ?thesis using a b c by blast
qed

text \<open>
  C1, amended. The sessions of \<^verbatim>\<open>detectSessions\<close> are the slices of the boundaries
  whose slice holds more than one event (the whole sequence when there is no boundary).
  The slice for boundary \<open>i\<close> holds the input positions from its discharge start
  through its session end, and the session end of a boundary that is not the last is
  the next boundary itself, at or before the discharge start of every later boundary.
  So two sessions share at most one input position, the boundary event at which the
  earlier one ends, and every input event belongs to at most two sessions.
\<close>

theorem session_slices_share_boundary:
  "map sessionEvents (sessions (detectSessions pf data th)) =
     (if events data = [] then []
      else if findFullChargeEvents (events data) th = [] then [events data]
      else map (sessionSlice (events data) (findFullChargeEvents (events data) th))
             (filter (\<lambda>i. 1 < length (sessionSlice (events data)
                                        (findFullChargeEvents (events data) th) i))
                [0..<length (findFullChargeEvents (events data) th)]))
   \<and> (\<forall>i < length (findFullChargeEvents (events data) th).
        sessionSlice (events data) (findFullChargeEvents (events data) th) i =
          map (\<lambda>k. events data ! k)
            (sessionIndices (events data) (findFullChargeEvents (events data) th) i))
   \<and> (\<forall>i j. i < j \<and> j < length (findFullChargeEvents (events data) th) \<longrightarrow>
        sessionEnd (events data) (findFullChargeEvents (events data) th) i =
          findFullChargeEvents (events data) th ! (i + 1)
        \<and> set (sessionIndices (events data) (findFullChargeEvents (events data) th) i)
            \<inter> set (sessionIndices (events data) (findFullChargeEvents (events data) th) j)
          \<subseteq> {sessionEnd (events data) (findFullChargeEvents (events data) th) i})"
proof -
  define evs where "evs = events data"
  define fce where "fce = findFullChargeEvents evs th"
  have s: "sorted_wrt (<) fce" and b: "\<forall>j \<in> set fce. j < length evs"
    using findFullChargeEvents_sorted [where evs = evs and th = th] by (auto simp: fce_def)
  have one: "map sessionEvents (sessions (detectSessions pf data th)) =
     (if evs = [] then []
      else if fce = [] then [evs]
      else map (sessionSlice evs fce)
             (filter (\<lambda>i. 1 < length (sessionSlice evs fce i)) [0..<length fce]))"
    using createSessions_kept [where fce = fce and evs = evs]
    by (simp add: detectSessions_sessionEvents evs_def fce_def createSessions_def)
  have two: "sessionSlice evs fce i = map (\<lambda>k. evs ! k) (sessionIndices evs fce i)"
    if "i < length fce" for i
    using sessionEnd_bounds(2) [OF s b that]
    by (simp add: sessionSlice_def sessionIndices_def slice_nth)
  have three: "sessionEnd evs fce i = fce ! (i + 1)
      \<and> set (sessionIndices evs fce i) \<inter> set (sessionIndices evs fce j)
          \<subseteq> {sessionEnd evs fce i}"
    if "i < j" "j < length fce" for i j
    using sessions_ordered [OF s b that] by (auto simp: sessionIndices_def)
  show ?thesis
    using one two three unfolding evs_def fce_def by blast
qed

theorem session_slices_share_boundary_witness:
  "sessionEnd twoCharges (findFullChargeEvents twoCharges 98) 0 = 6
   \<and> set (sessionIndices twoCharges (findFullChargeEvents twoCharges 98) 0)
       \<inter> set (sessionIndices twoCharges (findFullChargeEvents twoCharges 98) 1) \<subseteq> {6}"
proof -
  have e: "events (sampleData twoCharges) = twoCharges" by (simp add: sampleData_def)
  have "(0::nat) < 1 \<and> 1 < length (findFullChargeEvents twoCharges 98)"
    by (simp add: twoCharges_boundaries)
  then have "sessionEnd twoCharges (findFullChargeEvents twoCharges 98) 0 =
          findFullChargeEvents twoCharges 98 ! (0 + 1)
        \<and> set (sessionIndices twoCharges (findFullChargeEvents twoCharges 98) 0)
            \<inter> set (sessionIndices twoCharges (findFullChargeEvents twoCharges 98) 1)
          \<subseteq> {sessionEnd twoCharges (findFullChargeEvents twoCharges 98) 0}"
    using session_slices_share_boundary [of utcPlatform "sampleData twoCharges" 98]
    unfolding e by blast
  then show ?thesis by (auto simp: twoCharges_boundaries)
qed

subsection \<open>The parse loop\<close>

lemma given_Some: "given x = Some d \<longleftrightarrow> x = Some d \<and> d \<noteq> []"
  by (auto simp: given_def split: option.splits if_splits)

lemma given_None: "given x = None \<longleftrightarrow> x = None \<or> x = Some []"
  by (auto simp: given_def split: option.splits if_splits)


lemma lineStep_null:
  assumes "lp line (lsLastSeenDate st) pd = Inr None"
  shows "lineStep lp pf pd i line st = st"
  using assms by (simp add: lineStep_def)


lemma lineStep_event:
  assumes "lp line (lsLastSeenDate st) pd = Inr (Some (event, upd))"
    and "dateParse pf (timestamp event) = Some t"
  shows "lsEvents (lineStep lp pf pd i line st) = lsEvents st @ [event]"
    and "lsErrors (lineStep lp pf pd i line st) = lsErrors st"
    and "lsLastSeenDate (lineStep lp pf pd i line st) =
       (case given upd of Some d \<Rightarrow> Some d | None \<Rightarrow> lsLastSeenDate st)"
  using assms by (simp_all add: lineStep_def Let_def split: option.splits)

lemma lineStep_grows:
  "\<exists>evs errs. lsEvents (lineStep lp pf pd i line st) = lsEvents st @ evs
     \<and> lsErrors (lineStep lp pf pd i line st) = lsErrors st @ errs"
  by (auto simp: lineStep_def Let_def split: sum.splits option.splits)

lemma parseLoop_grows:
  "\<exists>evs errs. lsEvents (parseLoop lp pf pd i ls st) = lsEvents st @ evs
     \<and> lsErrors (parseLoop lp pf pd i ls st) = lsErrors st @ errs"
proof (induction ls arbitrary: i st)
  case Nil
  show ?case by simp
next
  case (Cons l ls)
  obtain e1 r1 where a: "lsEvents (lineStep lp pf pd i l st) = lsEvents st @ e1"
      "lsErrors (lineStep lp pf pd i l st) = lsErrors st @ r1"
    using lineStep_grows by blast
  obtain e2 r2 where b:
      "lsEvents (parseLoop lp pf pd (Suc i) ls (lineStep lp pf pd i l st)) =
         lsEvents (lineStep lp pf pd i l st) @ e2"
      "lsErrors (parseLoop lp pf pd (Suc i) ls (lineStep lp pf pd i l st)) =
         lsErrors (lineStep lp pf pd i l st) @ r2"
    using Cons.IH by blast
  show ?case using a b by simp
qed

lemma parseLoop_append:
  "parseLoop lp pf pd i (xs @ ys) st =
     parseLoop lp pf pd (i + length xs) ys (parseLoop lp pf pd i xs st)"
  by (induction xs arbitrary: i st) simp_all

lemma lineStep_valid:
  assumes "\<forall>e \<in> set (lsEvents st). dateParse pf (timestamp e) \<noteq> None"
  shows "\<forall>e \<in> set (lsEvents (lineStep lp pf pd i line st)). dateParse pf (timestamp e) \<noteq> None"
  using assms by (auto simp: lineStep_def Let_def split: sum.splits option.splits)

lemma parseLoop_valid:
  assumes "\<forall>e \<in> set (lsEvents st). dateParse pf (timestamp e) \<noteq> None"
  shows "\<forall>e \<in> set (lsEvents (parseLoop lp pf pd i ls st)). dateParse pf (timestamp e) \<noteq> None"
  using assms
proof (induction ls arbitrary: i st)
  case Nil
  then show ?case by simp
next
  case (Cons l ls)
  show ?case using Cons.IH [OF lineStep_valid [OF Cons.prems]] by simp
qed

lemma parsedState_valid:
  "e \<in> set (lsEvents (parsedState lp pf text)) \<Longrightarrow> dateParse pf (timestamp e) \<noteq> None"
  using parseLoop_valid [of initialState pf lp]
  by (auto simp: parsedState_def initialState_def)

lemma computeOffsets_timestamp: "map timestamp (computeOffsets pf evs) = map timestamp evs"
  by (cases evs) (simp_all add: computeOffsets_def o_def)

lemma computeOffsets_timeKey: "map (timeKey pf) (computeOffsets pf evs) = map (timeKey pf) evs"
  by (cases evs) (simp_all add: computeOffsets_def o_def timeKey_def)

lemma computeOffsets_valid:
  assumes "\<And>e. e \<in> set evs \<Longrightarrow> dateParse pf (timestamp e) \<noteq> None"
  shows "e \<in> set (computeOffsets pf evs) \<Longrightarrow> dateParse pf (timestamp e) \<noteq> None"
  using assms by (cases evs) (auto simp: computeOffsets_def)

lemma events_parseTextWith:
  "events (parseTextWith lp pf text) =
     sort_key (timeKey pf) (computeOffsets pf (lsEvents (parsedState lp pf text)))"
  "errors (parseTextWith lp pf text) = lsErrors (parsedState lp pf text)"
  by (simp_all add: parseTextWith_def Let_def)

subsection \<open>Order of the parsed events\<close>

text \<open>
  C3. The events that \<^verbatim>\<open>parseText\<close> returns are sorted, non-decreasing, by the
  instant that their timestamp parses to; every one of these timestamps parses (so
  \<open>timeKey\<close> is that instant).
\<close>

theorem parseText_sorted:
  "sorted (map (timeKey pf) (events (parseText pf text)))
   \<and> map (\<lambda>e. dateParse pf (timestamp e)) (events (parseText pf text)) =
      map (\<lambda>e. Some (timeKey pf e)) (events (parseText pf text))"
proof -
  have "dateParse pf (timestamp e) = Some (timeKey pf e)"
    if "e \<in> set (events (parseText pf text))" for e
  proof -
    have "e \<in> set (computeOffsets pf (lsEvents (parsedState (lineParser pf) pf text)))"
      using that by (simp add: parseText_def events_parseTextWith)
    then have "dateParse pf (timestamp e) \<noteq> None"
      using computeOffsets_valid parsedState_valid by blast
    then show ?thesis by (auto simp: timeKey_def)
  qed
  then show ?thesis
    by (simp add: parseText_def events_parseTextWith)
qed

subsection \<open>The sample texts\<close>

lemmas line_eval =
  parseLine_def lineParts_def tabbed_def sepLen_def isSpace_def isDigit_def trim_def
  matchTimestamp_def matchDate_def matchTime_def timeTail_def given_def percentAt_def
  percentWith_def mWhAt_def normalizeState_def toLowerCase_def lowerChar_def parseDigits_def
  digitVal_def Let_def upperChars_def lowerChars_def

lemmas date_eval =
  utcDateParse_def matchDate_def matchTime_def timeTail_def isDigit_def civilOf_def
  parseDigits_def digitVal_def daysInMonth_def isLeap_def daysFromCivil_def Let_def

lemma sample_lines:
  "textLines timeOnlyLog =
     [tabbed [''2025-08-25 08:00:00'', ''Active'', ''100 %''],
      tabbed [''08:30:00'', ''Active'', ''95 %'']]"
  "textLines outOfOrderLog =
     [tabbed [''2025-08-25 08:00:00'', ''Active'', ''100 %''],
      tabbed [''2025-08-24 08:00:00'', ''Active'', ''90 %'']]"
  "textLines skippedDateLog =
     [tabbed [''2025-08-25 08:00:00'', ''Active'', ''Battery''],
      tabbed [''08:30:00'', ''Active'', ''95 %'']]"
  "textLines badDateLog = [tabbed [''2025-13-45 08:00:00'', ''Active'', ''100 %'']]"
  by (simp_all add: textLines_def timeOnlyLog_def outOfOrderLog_def skippedDateLog_def
      badDateLog_def tabbed_def newline_def trim_def isSpace_def)

lemma sample_parseLine:
  "parseLine td (tabbed [''2025-08-25 08:00:00'', ''Active'', ''100 %'']) ls pd =
     Some (\<lparr> timestamp = ''2025-08-25 08:00:00'', minutesOffset = Num 0, state = Active,
              percent = 100, mWh = None, rawState = ''Active'' \<rparr>, Some ''2025-08-25'')"
  "parseLine td (tabbed [''2025-08-24 08:00:00'', ''Active'', ''90 %'']) ls pd =
     Some (\<lparr> timestamp = ''2025-08-24 08:00:00'', minutesOffset = Num 0, state = Active,
              percent = 90, mWh = None, rawState = ''Active'' \<rparr>, Some ''2025-08-24'')"
  "parseLine td (tabbed [''2025-13-45 08:00:00'', ''Active'', ''100 %'']) ls pd =
     Some (\<lparr> timestamp = ''2025-13-45 08:00:00'', minutesOffset = Num 0, state = Active,
              percent = 100, mWh = None, rawState = ''Active'' \<rparr>, Some ''2025-13-45'')"
  "parseLine td (tabbed [''2025-08-25 08:00:00'', ''Active'', ''Battery'']) ls pd = None"
  "parseLine td (tabbed [''08:30:00'', ''Active'', ''95 %'']) (Some ''2025-08-25'') pd =
     Some (\<lparr> timestamp = ''2025-08-25 08:30:00'', minutesOffset = Num 0, state = Active,
              percent = 95, mWh = None, rawState = ''Active'' \<rparr>, None)"
  "parseLine td (tabbed [''08:30:00'', ''Active'', ''95 %'']) None (Some ''2025-08-24'') =
     Some (\<lparr> timestamp = ''2025-08-24 08:30:00'', minutesOffset = Num 0, state = Active,
              percent = 95, mWh = None, rawState = ''Active'' \<rparr>, None)"
  by (simp_all add: line_eval)

lemma sample_dates:
  "utcDateParse ''2025-08-25 08:00:00'' = Some 1756108800000"
  "utcDateParse ''2025-08-25 08:30:00'' = Some 1756110600000"
  "utcDateParse ''2025-08-24 08:00:00'' = Some 1756022400000"
  "utcDateParse ''2025-08-24 08:30:00'' = Some 1756024200000"
  "utcDateParse ''2025-13-45 08:00:00'' = None"
  by (simp_all add: date_eval)

lemma sample_previousDay:
  "previousDayFor utcPlatform (tabbed [''2025-08-25 08:00:00'', ''Active'', c] # rest) =
     Some ''2025-08-24''"
  by (simp add: previousDayFor_def utcPlatform_def utcPreviousDay_def tabbed_def
      matchTimestamp_def matchDate_def matchTime_def timeTail_def isDigit_def isSpace_def
      civilOf_def parseDigits_def digitVal_def daysInMonth_def isLeap_def Let_def pad2_def
      showNat.simps [of 2025] showNat.simps [of 202] showNat.simps [of 20]
      showNat.simps [of 2] showNat.simps [of 24] showNat.simps [of 8])


lemma utc_fields:
  "dateParse utcPlatform = utcDateParse" "today utcPlatform = ''2025-09-01''"
  "rnd utcPlatform = binary64"
  by (simp_all add: utcPlatform_def)

lemmas loop_eval =
  parsedState_def sample_lines sample_previousDay lineStep_def lineParser_def
  sample_parseLine sample_dates utc_fields initialState_def given_def Let_def

lemma sample_states:
  "parsedState (lineParser utcPlatform) utcPlatform timeOnlyLog =
     \<lparr> lsEvents = [sampleEvent ''2025-08-25 08:00:00'' Active 100 None \<lparr>rawState := ''Active''\<rparr>,
                    sampleEvent ''2025-08-25 08:30:00'' Active 95 None \<lparr>rawState := ''Active''\<rparr>],
       lsErrors = [], lsStartDate = Some 1756108800000, lsLastSeenDate = Some ''2025-08-25'' \<rparr>"
  "parsedState (lineParser utcPlatform) utcPlatform outOfOrderLog =
     \<lparr> lsEvents = [sampleEvent ''2025-08-25 08:00:00'' Active 100 None \<lparr>rawState := ''Active''\<rparr>,
                    sampleEvent ''2025-08-24 08:00:00'' Active 90 None \<lparr>rawState := ''Active''\<rparr>],
       lsErrors = [], lsStartDate = Some 1756108800000, lsLastSeenDate = Some ''2025-08-24'' \<rparr>"
  "parsedState (lineParser utcPlatform) utcPlatform skippedDateLog =
     \<lparr> lsEvents = [sampleEvent ''2025-08-24 08:30:00'' Active 95 None \<lparr>rawState := ''Active''\<rparr>],
       lsErrors = [], lsStartDate = Some 1756024200000, lsLastSeenDate = None \<rparr>"
  by (simp_all add: loop_eval sampleEvent_def)

lemma sample_events:
  "events (parseText utcPlatform timeOnlyLog) =
     [sampleEvent ''2025-08-25 08:00:00'' Active 100 None \<lparr>rawState := ''Active''\<rparr>,
      sampleEvent ''2025-08-25 08:30:00'' Active 95 None
        \<lparr>rawState := ''Active'', minutesOffset := Num 30\<rparr>]"
  "events (parseText utcPlatform outOfOrderLog) =
     [sampleEvent ''2025-08-24 08:00:00'' Active 90 None
        \<lparr>rawState := ''Active'', minutesOffset := Num (- 1440)\<rparr>,
      sampleEvent ''2025-08-25 08:00:00'' Active 100 None \<lparr>rawState := ''Active''\<rparr>]"
  "events (parseText utcPlatform skippedDateLog) =
     [sampleEvent ''2025-08-24 08:30:00'' Active 95 None \<lparr>rawState := ''Active''\<rparr>]"
  by (simp_all add: parseText_def events_parseTextWith sample_states computeOffsets_def offsetFrom_def
      sampleEvent_def getTime_def timeKey_def utc_fields sample_dates jsub_def jdiv_def
      binary64_0 binary64_samples floor_rat_numeral)


theorem parseText_sorted_witness:
  "sorted (map (timeKey utcPlatform) (events (parseText utcPlatform outOfOrderLog)))
   \<and> map timestamp (events (parseText utcPlatform outOfOrderLog)) =
       [''2025-08-24 08:00:00'', ''2025-08-25 08:00:00'']"
  using parseText_sorted [of utcPlatform outOfOrderLog]
  by (simp add: sample_events sampleEvent_def)

subsection \<open>Minute offsets\<close>







subsection \<open>Errors of the parse loop\<close>

lemma mset_events_parseTextWith:
  "mset (map timestamp (events (parseTextWith lp pf text))) =
     mset (map timestamp (lsEvents (parsedState lp pf text)))"
proof -
  have "image_mset timestamp (mset (computeOffsets pf xs)) = image_mset timestamp (mset xs)"
    for xs
    using computeOffsets_timestamp [of pf xs] by (metis mset_map)
  then show ?thesis
    by (simp add: events_parseTextWith)
qed



subsection \<open>Dates of time-only lines\<close>

lemma matchTimestamp_date: "matchTimestamp s = Some (Some d, t) \<Longrightarrow> length d = 10"
  by (auto simp: matchTimestamp_def matchDate_def split: option.splits if_splits)

lemma parseLine_skips_alike:
  "parseLine td l a b = None \<longleftrightarrow> parseLine td' l a' b' = None"
  by (simp add: parseLine_def Let_def split: option.splits prod.splits)

lemma parseLine_dated:
  assumes "lineDate l = Some d"
  shows "\<exists>ev. parseLine td l ls pd = Some (ev, Some d)"
proof -
  have acc: "parseLine [] l None None \<noteq> None"
    using assms by (auto simp: lineDate_def split: option.splits)
  then have acc': "parseLine td l ls pd \<noteq> None"
    using parseLine_skips_alike [of "[]" l None None td ls pd] by simp
  obtain t where m: "matchTimestamp (lineParts l ! 0) = Some (Some d, t)"
    using assms by (auto simp: lineDate_def split: option.splits)
  have "d \<noteq> []" using matchTimestamp_date [OF m] by auto
  then show ?thesis
    using acc' m
    by (auto simp: parseLine_def Let_def given_def split: option.splits if_splits)
qed

lemma parseLine_timeOnly:
  assumes "lineDate l = None" "parseLine [] l None None \<noteq> None" "d \<noteq> []"
  shows "\<exists>ev t. lineTime l = Some t \<and> parseLine td l (Some d) pd = Some (ev, None)
           \<and> timestamp ev = d @ '' '' @ t"
proof -
  have acc': "parseLine td l (Some d) pd \<noteq> None"
    using assms(2) parseLine_skips_alike [of "[]" l None None td "Some d" pd] by simp
  then obtain ds t where m: "matchTimestamp (lineParts l ! 0) = Some (ds, t)"
    by (auto simp: parseLine_def Let_def split: option.splits if_splits)
  have "ds = None"
    using assms(1,2) m by (cases ds) (auto simp: lineDate_def split: option.splits)
  then show ?thesis
    using acc' m assms(3)
    by (auto simp: parseLine_def Let_def given_def lineTime_def split: option.splits if_splits)
qed

lemma lineStep_keeps_date:
  assumes "lsLastSeenDate st = Some d" "d \<noteq> []" "lineDate l = None"
  shows "lsLastSeenDate (lineStep (lineParser pf) pf pd i l st) = Some d"
proof (cases "parseLine [] l None None = None")
  case True
  then have "parseLine (today pf) l (Some d) pd = None"
    using parseLine_skips_alike [of "[]" l None None "today pf" "Some d" pd] by simp
  then show ?thesis using assms(1) by (simp add: lineStep_def lineParser_def)
next
  case False
  then obtain ev where "parseLine (today pf) l (Some d) pd = Some (ev, None)"
    using parseLine_timeOnly [OF assms(3) False assms(2)] by blast
  then show ?thesis
    using assms(1)
    by (simp add: lineStep_def lineParser_def given_def Let_def split: option.splits)
qed

lemma parseLoop_keeps_date:
  assumes "lsLastSeenDate st = Some d" "d \<noteq> []" "\<forall>l \<in> set ls. lineDate l = None"
  shows "lsLastSeenDate (parseLoop (lineParser pf) pf pd i ls st) = Some d"
  using assms
proof (induction ls arbitrary: i st)
  case Nil
  then show ?case by simp
next
  case (Cons l ls)
  have "lsLastSeenDate (lineStep (lineParser pf) pf pd i l st) = Some d"
    using lineStep_keeps_date Cons.prems by simp
  then show ?case using Cons.IH Cons.prems by simp
qed

lemma lineStep_sets_date:
  assumes "lineDate l = Some d"
  shows "lsLastSeenDate (lineStep (lineParser pf) pf pd i l st) = Some d"
proof -
  obtain ev where p: "parseLine (today pf) l (lsLastSeenDate st) pd = Some (ev, Some d)"
    using parseLine_dated [OF assms] by blast
  obtain t where "matchTimestamp (lineParts l ! 0) = Some (Some d, t)"
    using assms by (auto simp: lineDate_def split: option.splits)
  then have "d \<noteq> []" using matchTimestamp_date by fastforce
  then show ?thesis
    using p by (simp add: lineStep_def lineParser_def given_def Let_def split: option.splits)
qed


text \<open>
  C9 as stated fails: a date is handed on only by a line that \<^verbatim>\<open>parseLine\<close> does not
  skip. In \<open>skippedDateLog\<close> the dated line has no percentage, so it is skipped with
  its date, and the time-only line after it gets the day before the first dated line.
\<close>

theorem time_only_date_counterexample:
  "matchTimestamp (hd (textLines skippedDateLog)) = Some (Some ''2025-08-25'', ''08:00:00'')
   \<and> map timestamp (events (parseText utcPlatform skippedDateLog)) = [''2025-08-24 08:30:00'']"
  by (simp add: sample_events sampleEvent_def sample_lines)
     (simp add: tabbed_def matchTimestamp_def matchDate_def matchTime_def timeTail_def
        isDigit_def isSpace_def)

text \<open>
  C9, amended. In a plain-text input, let a time-only line that \<^verbatim>\<open>parseLine\<close> does
  not skip come after a line with an explicit date that \<^verbatim>\<open>parseLine\<close> does not skip
  (it passes the noise filter, has three parts and a percentage), with no such dated
  line between them. Then the loop reaches the time-only line with that date as
  \<^verbatim>\<open>lastSeenDate\<close>, and the event of the time-only line has the timestamp made of that
  date and the line's time; when the timestamp parses, the event is among the events
  returned. In particular the example of the specification gives events dated
  2025-08-25.
\<close>

theorem time_only_line_date:
  assumes "textLines text = pre @ l1 # mid @ l2 # post"
    and "lineDate l1 = Some date"
    and "\<forall>l \<in> set mid. lineDate l = None"
    and "lineDate l2 = None" and "parseLine [] l2 None None \<noteq> None"
  shows
    "let pd = previousDayFor pf (textLines text);
         st = parseLoop (lineParser pf) pf pd 0 (pre @ l1 # mid) initialState
     in lsLastSeenDate st = Some date
      \<and> (\<exists>ev t. lineTime l2 = Some t
            \<and> parseLine (today pf) l2 (lsLastSeenDate st) pd = Some (ev, None)
            \<and> timestamp ev = date @ '' '' @ t
            \<and> (dateParse pf (timestamp ev) \<noteq> None \<longrightarrow>
                 date @ '' '' @ t \<in> set (map timestamp (events (parseText pf text)))))
      \<and> map timestamp (events (parseText utcPlatform timeOnlyLog)) =
           [''2025-08-25 08:00:00'', ''2025-08-25 08:30:00'']"
proof -
  define pd where "pd = previousDayFor pf (textLines text)"
  define st0 where "st0 = parseLoop (lineParser pf) pf pd 0 pre initialState"
  define st where "st = parseLoop (lineParser pf) pf pd 0 (pre @ l1 # mid) initialState"
  obtain t1 where "matchTimestamp (lineParts l1 ! 0) = Some (Some date, t1)"
    using assms(2) by (auto simp: lineDate_def split: option.splits)
  then have ne: "date \<noteq> []" using matchTimestamp_date by fastforce
  have st_eq: "st = parseLoop (lineParser pf) pf pd (Suc (length pre)) mid
                 (lineStep (lineParser pf) pf pd (length pre) l1 st0)"
    by (simp add: st_def st0_def parseLoop_append)
  have seen: "lsLastSeenDate st = Some date"
    unfolding st_eq
    by (rule parseLoop_keeps_date [OF lineStep_sets_date [OF assms(2)] ne assms(3)])
  obtain ev t where ev: "lineTime l2 = Some t"
      "parseLine (today pf) l2 (Some date) pd = Some (ev, None)"
      "timestamp ev = date @ '' '' @ t"
    using parseLine_timeOnly [OF assms(4,5) ne] by blast
  have inEvents: "date @ '' '' @ t \<in> set (map timestamp (events (parseText pf text)))"
    if valid: "dateParse pf (timestamp ev) \<noteq> None"
  proof -
    obtain ms where ms: "dateParse pf (timestamp ev) = Some ms" using valid by blast
    have "lineParser pf l2 (lsLastSeenDate st) pd = Inr (Some (ev, None))"
      using ev(2) seen by (simp add: lineParser_def)
    then have pushed: "lsEvents (lineStep (lineParser pf) pf pd (length (pre @ l1 # mid)) l2 st)
        = lsEvents st @ [ev]"
      using lineStep_event(1)
        [where lp = "lineParser pf" and line = l2 and st = st and pd = pd and pf = pf
           and event = ev and upd = None and t = ms] ms
      by simp
    have "parsedState (lineParser pf) pf text =
        parseLoop (lineParser pf) pf pd (Suc (length (pre @ l1 # mid))) post
          (lineStep (lineParser pf) pf pd (length (pre @ l1 # mid)) l2 st)"
      using parseLoop_append [of "lineParser pf" pf pd 0 "pre @ l1 # mid" "l2 # post" initialState]
      by (simp add: parsedState_def assms(1) pd_def st_def)
    then obtain more where "lsEvents (parsedState (lineParser pf) pf text) = (lsEvents st @ [ev]) @ more"
      using parseLoop_grows pushed by metis
    then have "ev \<in> set (lsEvents (parsedState (lineParser pf) pf text))" by simp
    then have "timestamp ev \<in># mset (map timestamp (lsEvents (parsedState (lineParser pf) pf text)))"
      by simp
    then have "timestamp ev \<in># mset (map timestamp (events (parseText pf text)))"
      by (simp only: parseText_def mset_events_parseTextWith)
    then show ?thesis using ev(3) by simp
  qed
  have ex: "map timestamp (events (parseText utcPlatform timeOnlyLog)) =
           [''2025-08-25 08:00:00'', ''2025-08-25 08:30:00'']"
    by (simp add: sample_events sampleEvent_def)
  show ?thesis
    unfolding Let_def pd_def [symmetric] st_def [symmetric]
    using seen ev inEvents ex by auto
qed

theorem time_only_line_date_witness:
  "textLines timeOnlyLog =
     [] @ tabbed [''2025-08-25 08:00:00'', ''Active'', ''100 %''] # [] @
       tabbed [''08:30:00'', ''Active'', ''95 %''] # []
   \<and> lineDate (tabbed [''2025-08-25 08:00:00'', ''Active'', ''100 %'']) = Some ''2025-08-25''
   \<and> lineDate (tabbed [''08:30:00'', ''Active'', ''95 %'']) = None
   \<and> lineTime (tabbed [''08:30:00'', ''Active'', ''95 %'']) = Some ''08:30:00''
   \<and> parseLine [] (tabbed [''08:30:00'', ''Active'', ''95 %'']) None None \<noteq> None
   \<and> ''2025-08-25 08:30:00'' \<in> set (map timestamp (events (parseText utcPlatform timeOnlyLog)))"
proof -
  let ?l1 = "tabbed [''2025-08-25 08:00:00'', ''Active'', ''100 %'']"
  let ?l2 = "tabbed [''08:30:00'', ''Active'', ''95 %'']"
  have h1: "textLines timeOnlyLog = [] @ ?l1 # [] @ ?l2 # []"
    by (simp add: sample_lines)
  have m1: "matchTimestamp (lineParts ?l1 ! 0) = Some (Some ''2025-08-25'', ''08:00:00'')"
    and m2: "matchTimestamp (lineParts ?l2 ! 0) = Some (None, ''08:30:00'')"
    by (simp_all add: lineParts_def tabbed_def sepLen_def trim_def matchTimestamp_def
        matchDate_def matchTime_def timeTail_def isDigit_def isSpace_def)
  have h5: "parseLine [] ?l2 None None \<noteq> None"
    by (simp add: line_eval)
  have h2: "lineDate ?l1 = Some ''2025-08-25''"
    by (simp add: lineDate_def m1 sample_parseLine)
  have h4: "lineDate ?l2 = None"
    by (simp add: lineDate_def m2 split: option.splits)
  have h3: "\<forall>l \<in> set []. lineDate l = None" by simp
  have t: "lineTime ?l2 = Some ''08:30:00''" by (simp add: lineTime_def m2)
  have v: "dateParse utcPlatform (''2025-08-25'' @ '' '' @ ''08:30:00'') \<noteq> None"
    by (simp add: utc_fields sample_dates)
  have "''2025-08-25'' @ '' '' @ ''08:30:00''
      \<in> set (map timestamp (events (parseText utcPlatform timeOnlyLog)))"
    using time_only_line_date [OF h1 h2 h3 h4 h5, of utcPlatform] t v
    unfolding Let_def by force
  then show ?thesis using h1 h2 h4 h5 t by simp
qed

subsection \<open>Minutes per state\<close>

lemma pairStep_Unknown: "state c = Unknown \<Longrightarrow> pairStep pf c n a = a"
  by (simp add: pairStep_def Let_def)

lemma accumulate_fold:
  "accumulate pf evs a =
     foldl (\<lambda>a (c, n). pairStep pf c n a) a
       (filter (\<lambda>(c, n). state c \<noteq> Unknown) (zip evs (tl evs)))"
  by (induction pf evs a rule: accumulate.induct) (simp_all add: pairStep_Unknown)

lemma unknown_gap_zip:
  assumes "Suc k < length evs" "state (evs ! k) = Unknown"
    "timeKey pf (evs ! k) < timeKey pf (evs ! Suc k)"
  shows "\<exists>(x, y) \<in> set (zip evs (tl evs)). state x = Unknown \<and> timeKey pf x < timeKey pf y"
proof -
  have "k < length (zip evs (tl evs))" using assms(1) by simp
  then have "zip evs (tl evs) ! k \<in> set (zip evs (tl evs))" by (rule nth_mem)
  moreover have "zip evs (tl evs) ! k = (evs ! k, evs ! Suc k)"
    using assms(1) by (simp add: nth_tl)
  ultimately show ?thesis using assms(2,3) by force
qed

lemma zeroTotals_minutes:
  "accActiveMinutes zeroTotals = Num 0" "accIdleMinutes zeroTotals = Num 0"
  "accChargingMinutes zeroTotals = Num 0"
  by (simp_all add: zeroTotals_def)

lemma analyzeSession_minutes:
  "evs \<noteq> [] \<Longrightarrow> activeMinutes (analyzeSession pf evs sid) = accActiveMinutes (accumulate pf evs zeroTotals)"
  "evs \<noteq> [] \<Longrightarrow> idleMinutes (analyzeSession pf evs sid) = accIdleMinutes (accumulate pf evs zeroTotals)"
  "evs \<noteq> [] \<Longrightarrow> chargingMinutes (analyzeSession pf evs sid) =
     accChargingMinutes (accumulate pf evs zeroTotals)"
  "evs \<noteq> [] \<Longrightarrow> durationMin (analyzeSession pf evs sid) =
     minutesBetween pf (timestamp (hd evs)) (timestamp (last evs))"
  by (simp_all add: analyzeSession_def Let_def)

lemma gap_dates:
  "utcDateParse ''2025-08-25 08:00:01'' = Some 1756108801000"
  "utcDateParse ''2025-08-25 08:00:32'' = Some 1756108832000"
  by (simp_all add: date_eval)

lemma binary64_gaps:
  "binary64 1000 = 1000"
  "binary64 31000 = 31000"
  "binary64 32000 = 32000"
  "binary64 (1 / 60) = 4803839602528529 / 288230376151711744"
  "binary64 (31 / 60) = 4653719614949513 / 9007199254740992"
  "binary64 (8 / 15) = 4803839602528529 / 9007199254740992"
  "binary64 (4803839602528529 / 288230376151711744) = 4803839602528529 / 288230376151711744"
  "binary64 (153722867280912945 / 288230376151711744) = 2401919801264265 / 4503599627370496"
  by (subst binary64_near [where e = 9 and m = 8796093022208000], simp_all add: power_int_minus)
     (subst binary64_near [where e = 14 and m = 8521215115264000], simp_all add: power_int_minus,
      subst binary64_near [where e = 14 and m = 8796093022208000], simp_all add: power_int_minus,
      subst binary64_near [where e = "- 6" and m = 4803839602528529], simp_all add: power_int_minus,
      subst binary64_near [where e = "- 1" and m = 4653719614949513], simp_all add: power_int_minus,
      subst binary64_near [where e = "- 1" and m = 4803839602528529], simp_all add: power_int_minus,
      subst binary64_near [where e = "- 6" and m = 4803839602528529], simp_all add: power_int_minus,
      subst binary64_near [where e = "- 1" and m = 4803839602528530], simp_all add: power_int_minus)


lemma exact_fields:
  "dateParse exactPlatform = utcDateParse" "rnd exactPlatform = (\<lambda>x. x)"
  by (simp_all add: exactPlatform_def)

lemma grid_range:
  fixes u L :: rat
  assumes "0 \<le> u" "u \<le> 1" "L * 60000 \<le> (1 - u) ^ K" "k \<le> K" "0 \<le> m"
  shows "of_int m / 60000 = (0::rat) \<or> L \<le> (1 - u) ^ k * (of_int m / 60000)"
proof (cases "m = 0")
  case True
  then show ?thesis by simp
next
  case False
  then have m: "(1::rat) \<le> of_int m" using assms(5) by simp
  have "(1 - u) ^ K \<le> (1 - u) ^ k" using assms(1,2,4) by (simp add: power_decreasing)
  then have "L * 60000 \<le> (1 - u) ^ k" using assms(3) by simp
  also have "\<dots> = (1 - u) ^ k * 1" by simp
  also have "\<dots> \<le> (1 - u) ^ k * of_int m"
    using m assms(2) by (intro mult_left_mono) auto
  finally show ?thesis by (simp add: field_simps)
qed

lemma unit_range:
  fixes u L :: rat
  assumes "0 \<le> u" "u \<le> 1" "L * 60000 \<le> (1 - u) ^ K" "0 \<le> m"
  shows "of_int m = (0::rat) \<or> L \<le> (1 - u) ^ 0 * of_int m"
proof (cases "m = 0")
  case True
  then show ?thesis by simp
next
  case False
  then have m: "(1::rat) \<le> of_int m" using assms(4) by simp
  have "(1 - u) ^ K \<le> 1" using assms(1,2) by (simp add: power_le_one)
  then have "L * 60000 \<le> 1" using assms(3) by simp
  then have "L \<le> 1" by simp
  then show ?thesis using m by simp
qed

lemma minutesBetween_near:
  assumes u: "0 \<le> u" "u \<le> 1"
    and r: "rnd pf 0 = 0" "\<forall>x. L \<le> \<bar>x\<bar> \<longrightarrow> \<bar>rnd pf x - x\<bar> \<le> u * \<bar>x\<bar>"
    and range: "L * 60000 \<le> (1 - u) ^ K" "1 \<le> K"
    and "dateParse pf a = Some s" "dateParse pf b = Some t" "s \<le> t"
  shows "\<exists>g. minutesBetween pf a b = Num g \<and> nearBy u 2 g (of_int (t - s) / 60000)"
proof -
  define m where "m = t - s"
  have m0: "0 \<le> m" using assms(9) by (simp add: m_def)
  have d0: "(0::rat) \<le> of_int m" using m0 by simp
  have "nearBy u 0 (of_int m) (of_int m)" by (simp add: nearBy_def)
  then have "nearBy u (Suc 0) (rnd pf (of_int m)) (of_int m)"
    by (rule nearBy_rnd [OF u r _ d0 unit_range [OF u range(1) m0]])
  then have n1: "nearBy u (Suc 0) (rnd pf (of_int m) / 60000) (of_int m / 60000)"
    by (intro nearBy_div) auto
  have "of_int m / 60000 = (0::rat) \<or> L \<le> (1 - u) ^ Suc 0 * (of_int m / 60000)"
    using range(2) by (intro grid_range [OF u range(1) _ m0]) auto
  then have n2: "nearBy u (Suc (Suc 0)) (rnd pf (rnd pf (of_int m) / 60000)) (of_int m / 60000)"
    using d0 by (intro nearBy_rnd [OF u r n1]) auto
  then have "0 \<le> rnd pf (rnd pf (of_int m) / 60000)"
    using d0 by (intro nearBy_nonneg [OF u(2) _ n2]) auto
  then have "minutesBetween pf a b = Num (rnd pf (rnd pf (of_int m) / 60000))"
    using assms(7,8) by (simp add: minutesBetween_def getTime_def jsub_def jdiv_def m_def)
  then show ?thesis using n2 by (auto simp: m_def numeral_2_eq_2)
qed


lemma stateMillis_simps:
  "stateMillis pf s [] = 0"
  "stateMillis pf s [e] = 0"
  "stateMillis pf s (e0 # e1 # rest) =
     (if state e0 = s then timeKey pf e1 - timeKey pf e0 else 0) + stateMillis pf s (e1 # rest)"
  by (simp_all add: stateMillis_def)

lemma stateMillis_nonneg:
  assumes "sorted (map (timeKey pf) evs)"
  shows "0 \<le> stateMillis pf s evs"
  using assms
proof (induction evs rule: induct_list012)
  case (3 e0 e1 rest)
  then show ?case by (simp add: stateMillis_simps)
qed (simp_all add: stateMillis_simps)

lemma stateMillis_total:
  assumes "evs \<noteq> []"
  shows "stateMillis pf Active evs + stateMillis pf Idle evs + stateMillis pf Charging evs
         + stateMillis pf Unknown evs = timeKey pf (last evs) - timeKey pf (hd evs)"
  using assms
proof (induction evs rule: induct_list012)
  case (3 e0 e1 rest)
  then show ?case by (cases "state e0") (simp_all add: stateMillis_simps)
qed (simp_all add: stateMillis_simps)

lemma stateMillis_Unknown_pos:
  assumes "sorted (map (timeKey pf) evs)"
    and "\<exists>(x, y) \<in> set (zip evs (tl evs)). state x = Unknown \<and> timeKey pf x < timeKey pf y"
  shows "0 < stateMillis pf Unknown evs"
  using assms
proof (induction evs rule: induct_list012)
  case (3 e0 e1 rest)
  have s': "sorted (map (timeKey pf) (e1 # rest))" using 3(3) by simp
  have le: "timeKey pf e0 \<le> timeKey pf e1" using 3(3) by simp
  from 3(4) consider "state e0 = Unknown" "timeKey pf e0 < timeKey pf e1"
    | "\<exists>(x, y) \<in> set (zip (e1 # rest) (tl (e1 # rest))).
          state x = Unknown \<and> timeKey pf x < timeKey pf y"
    by auto
  then show ?case
  proof cases
    case 1
    then show ?thesis using stateMillis_nonneg [OF s', of Unknown]
      by (simp add: stateMillis_simps)
  next
    case 2
    then have "0 < stateMillis pf Unknown (e1 # rest)" using 3(2) s' by blast
    then show ?thesis using le by (simp add: stateMillis_simps)
  qed
qed simp_all

lemma pairStep_near:
  assumes u: "0 \<le> u" "u \<le> 1"
    and r: "rnd pf 0 = 0" "\<forall>x. L \<le> \<bar>x\<bar> \<longrightarrow> \<bar>rnd pf x - x\<bar> \<le> u * \<bar>x\<bar>"
    and range: "L * 60000 \<le> (1 - u) ^ K"
    and k: "2 \<le> k" "k \<le> K"
    and dates: "dateParse pf (timestamp c) = Some s" "dateParse pf (timestamp n) = Some t" "s \<le> t"
    and acc: "accActiveMinutes a = Num A" "accIdleMinutes a = Num I" "accChargingMinutes a = Num C"
    and near: "nearBy u k A (of_int NA / 60000)" "nearBy u k I (of_int NI / 60000)"
      "nearBy u k C (of_int NC / 60000)"
    and nn: "0 \<le> NA" "0 \<le> NI" "0 \<le> NC"
  shows "\<exists>A' I' C'.
      accActiveMinutes (pairStep pf c n a) = Num A'
    \<and> accIdleMinutes (pairStep pf c n a) = Num I'
    \<and> accChargingMinutes (pairStep pf c n a) = Num C'
    \<and> nearBy u (Suc k) A' (of_int (NA + (if state c = Active then t - s else 0)) / 60000)
    \<and> nearBy u (Suc k) I' (of_int (NI + (if state c = Idle then t - s else 0)) / 60000)
    \<and> nearBy u (Suc k) C' (of_int (NC + (if state c = Charging then t - s else 0)) / 60000)"
proof -
  have K1: "1 \<le> K" using k by simp
  obtain g where g: "minutesBetween pf (timestamp c) (timestamp n) = Num g"
      "nearBy u 2 g (of_int (t - s) / 60000)"
    using minutesBetween_near [OF u r range K1 dates] by blast
  have ts: "(0::rat) \<le> of_int (t - s) / 60000" using dates(3) by simp
  have gk: "nearBy u k g (of_int (t - s) / 60000)"
    using nearBy_mono [OF u ts k(1) g(2)] .
  have keep: "nearBy u (Suc k) X (of_int N / 60000)"
    if "nearBy u k X (of_int N / 60000)" "0 \<le> N" for X N
    using that by (intro nearBy_mono [OF u _ _ that(1)]) auto
  have add: "nearBy u (Suc k) (rnd pf (X + g)) (of_int (N + (t - s)) / 60000)"
    if X: "nearBy u k X (of_int N / 60000)" and N: "0 \<le> N" for X N
  proof -
    have n0: "0 \<le> N + (t - s)" using N dates(3) by simp
    have "nearBy u k (X + g) (of_int N / 60000 + of_int (t - s) / 60000)"
      using X gk by (rule nearBy_add)
    then have sum: "nearBy u k (X + g) (of_int (N + (t - s)) / 60000)"
      by (simp add: add_divide_distrib)
    have y0: "(0::rat) \<le> of_int (N + (t - s)) / 60000" using n0 by simp
    show ?thesis
      using nearBy_rnd [OF u r sum y0 grid_range [OF u range k(2) n0]] .
  qed
  show ?thesis
  proof (cases "state c")
    case Active
    then show ?thesis
      using acc g(1) add [OF near(1) nn(1)] keep [OF near(2) nn(2)] keep [OF near(3) nn(3)]
      by (simp add: pairStep_def Let_def jadd_def)
  next
    case Idle
    then show ?thesis
      using acc g(1) keep [OF near(1) nn(1)] add [OF near(2) nn(2)] keep [OF near(3) nn(3)]
      by (simp add: pairStep_def Let_def jadd_def)
  next
    case Charging
    then show ?thesis
      using acc g(1) keep [OF near(1) nn(1)] keep [OF near(2) nn(2)] add [OF near(3) nn(3)]
      by (simp add: pairStep_def Let_def jadd_def)
  next
    case Unknown
    then show ?thesis
      using acc keep [OF near(1) nn(1)] keep [OF near(2) nn(2)] keep [OF near(3) nn(3)]
      by (simp add: pairStep_def Let_def)
  qed
qed

lemma accumulate_near:
  assumes u: "0 \<le> u" "u \<le> 1"
    and r: "rnd pf 0 = 0" "\<forall>x. L \<le> \<bar>x\<bar> \<longrightarrow> \<bar>rnd pf x - x\<bar> \<le> u * \<bar>x\<bar>"
    and range: "L * 60000 \<le> (1 - u) ^ K"
    and "\<forall>e \<in> set (e0 # es). dateParse pf (timestamp e) \<noteq> None"
    and "sorted (map (timeKey pf) (e0 # es))"
    and "2 \<le> k" "k + length es \<le> K"
    and "accActiveMinutes a0 = Num A" "accIdleMinutes a0 = Num I" "accChargingMinutes a0 = Num C"
    and "nearBy u k A (of_int NA / 60000)" "nearBy u k I (of_int NI / 60000)"
      "nearBy u k C (of_int NC / 60000)"
    and "0 \<le> NA" "0 \<le> NI" "0 \<le> NC"
  shows "\<exists>A' I' C'.
      accActiveMinutes (accumulate pf (e0 # es) a0) = Num A'
    \<and> accIdleMinutes (accumulate pf (e0 # es) a0) = Num I'
    \<and> accChargingMinutes (accumulate pf (e0 # es) a0) = Num C'
    \<and> nearBy u (k + length es) A' (of_int (NA + stateMillis pf Active (e0 # es)) / 60000)
    \<and> nearBy u (k + length es) I' (of_int (NI + stateMillis pf Idle (e0 # es)) / 60000)
    \<and> nearBy u (k + length es) C' (of_int (NC + stateMillis pf Charging (e0 # es)) / 60000)"
  using assms(6-)
proof (induction es arbitrary: e0 a0 k A I C NA NI NC)
  case Nil
  then show ?case by (simp add: stateMillis_simps)
next
  case (Cons e1 rest)
  have p0: "dateParse pf (timestamp e0) = Some (timeKey pf e0)"
    and p1: "dateParse pf (timestamp e1) = Some (timeKey pf e1)"
    using Cons.prems(1) by (auto simp: timeKey_def)
  have le: "timeKey pf e0 \<le> timeKey pf e1" using Cons.prems(2) by simp
  have kK: "k \<le> K" using Cons.prems(4) by simp
  define g where "g = timeKey pf e1 - timeKey pf e0"
  have g0: "0 \<le> g" using le by (simp add: g_def)
  obtain A1 I1 C1 where s1:
      "accActiveMinutes (pairStep pf e0 e1 a0) = Num A1"
      "accIdleMinutes (pairStep pf e0 e1 a0) = Num I1"
      "accChargingMinutes (pairStep pf e0 e1 a0) = Num C1"
      "nearBy u (Suc k) A1 (of_int (NA + (if state e0 = Active then g else 0)) / 60000)"
      "nearBy u (Suc k) I1 (of_int (NI + (if state e0 = Idle then g else 0)) / 60000)"
      "nearBy u (Suc k) C1 (of_int (NC + (if state e0 = Charging then g else 0)) / 60000)"
    using pairStep_near [OF u r range Cons.prems(3) kK p0 p1 le Cons.prems(5-13)]
    unfolding g_def by blast
  have valid': "\<forall>e \<in> set (e1 # rest). dateParse pf (timestamp e) \<noteq> None"
    using Cons.prems(1) by simp
  have sorted': "sorted (map (timeKey pf) (e1 # rest))" using Cons.prems(2) by simp
  have k2: "2 \<le> Suc k" using Cons.prems(3) by simp
  have kr: "Suc k + length rest \<le> K" using Cons.prems(4) by simp
  have nn: "0 \<le> NA + (if state e0 = Active then g else 0)"
    "0 \<le> NI + (if state e0 = Idle then g else 0)"
    "0 \<le> NC + (if state e0 = Charging then g else 0)"
    using Cons.prems(11-13) g0 by simp_all
  have sm: "stateMillis pf s (e0 # e1 # rest) =
      (if state e0 = s then g else 0) + stateMillis pf s (e1 # rest)" for s
    by (simp add: stateMillis_simps g_def)
  show ?case
    using Cons.IH [OF valid' sorted' k2 kr s1 nn]
    by (simp add: sm add.assoc)
qed


lemma session_minutes_near:
  assumes u: "0 \<le> u" "u \<le> 1"
    and r: "rnd pf 0 = 0" "\<forall>x. L \<le> \<bar>x\<bar> \<longrightarrow> \<bar>rnd pf x - x\<bar> \<le> u * \<bar>x\<bar>"
    and range: "L * 60000 \<le> (1 - u) ^ (length evs + 1)"
    and ne: "evs \<noteq> []"
    and valid: "\<forall>e \<in> set evs. dateParse pf (timestamp e) \<noteq> None"
    and sorted: "sorted (map (timeKey pf) evs)"
  shows "\<exists>a i c d.
      activeMinutes (analyzeSession pf evs sid) = Num a
    \<and> idleMinutes (analyzeSession pf evs sid) = Num i
    \<and> chargingMinutes (analyzeSession pf evs sid) = Num c
    \<and> durationMin (analyzeSession pf evs sid) = Num d
    \<and> nearBy u (length evs + 1) a (of_int (stateMillis pf Active evs) / 60000)
    \<and> nearBy u (length evs + 1) i (of_int (stateMillis pf Idle evs) / 60000)
    \<and> nearBy u (length evs + 1) c (of_int (stateMillis pf Charging evs) / 60000)
    \<and> nearBy u 2 d (of_int (timeKey pf (last evs) - timeKey pf (hd evs)) / 60000)"
proof -
  obtain e0 es where Cons: "evs = e0 # es" using ne by (cases evs) auto
  have "hd evs \<in> set evs" using ne by simp
  then have p0: "dateParse pf (timestamp (hd evs)) = Some (timeKey pf (hd evs))"
    using valid by (auto simp: timeKey_def)
  have "last evs \<in> set evs" using ne by simp
  then have pl: "dateParse pf (timestamp (last evs)) = Some (timeKey pf (last evs))"
    using valid by (auto simp: timeKey_def)
  have le: "timeKey pf (hd evs) \<le> timeKey pf (last evs)"
  proof (cases es)
    case Nil
    then show ?thesis using Cons by simp
  next
    case (Cons e1 rest)
    have "last evs \<in> set es" using \<open>evs = e0 # es\<close> Cons by simp
    then show ?thesis using sorted \<open>evs = e0 # es\<close> by simp
  qed
  have K1: "1 \<le> length evs + 1" by simp
  obtain d where d: "durationMin (analyzeSession pf evs sid) = Num d"
      "nearBy u 2 d (of_int (timeKey pf (last evs) - timeKey pf (hd evs)) / 60000)"
    using minutesBetween_near [OF u r range K1 p0 pl le]
    by (auto simp: analyzeSession_minutes(4) [OF ne])
  have z: "nearBy u 2 0 (of_int 0 / 60000)" by (simp add: nearBy_def)
  have len: "2 + length es \<le> length evs + 1" "2 + length es = length evs + 1"
    using Cons by simp_all
  obtain a i c where acc:
      "accActiveMinutes (accumulate pf evs zeroTotals) = Num a"
      "accIdleMinutes (accumulate pf evs zeroTotals) = Num i"
      "accChargingMinutes (accumulate pf evs zeroTotals) = Num c"
      "nearBy u (length evs + 1) a (of_int (stateMillis pf Active evs) / 60000)"
      "nearBy u (length evs + 1) i (of_int (stateMillis pf Idle evs) / 60000)"
      "nearBy u (length evs + 1) c (of_int (stateMillis pf Charging evs) / 60000)"
    using accumulate_near [OF u r range valid [unfolded Cons] sorted [unfolded Cons]
        order_refl len(1) zeroTotals_minutes z z z order_refl order_refl order_refl]
    unfolding len(2) Cons [symmetric] by auto
  show ?thesis
    using acc d by (simp add: analyzeSession_minutes [OF ne])
qed

lemma minutes_sum_near:
  fixes u :: rat
  assumes u: "0 \<le> u" "u \<le> 1"
    and near: "nearBy u K a (of_int MA / 60000)" "nearBy u K i (of_int MI / 60000)"
      "nearBy u K c (of_int MC / 60000)" "nearBy u 2 d (of_int T / 60000)"
    and total: "MA + MI + MC + MU = T" and MU: "0 \<le> MU"
  shows "(a + i + c) * 60000 \<le> (1 + u) ^ K * of_int (T - MU)"
    and "(1 - u) ^ K * of_int (T - MU) \<le> (a + i + c) * 60000"
    and "(1 - u)\<^sup>2 * (a + i + c) \<le> (1 + u) ^ K * d"
proof -
  have T: "T - MU = MA + MI + MC" using total by simp
  have "nearBy u K (a + i + c) (of_int MA / 60000 + of_int MI / 60000 + of_int MC / 60000)"
    using near(1-3) by (intro nearBy_add)
  then have s: "nearBy u K (a + i + c) (of_int (T - MU) / 60000)"
    by (simp add: T add_divide_distrib)
  show hi: "(a + i + c) * 60000 \<le> (1 + u) ^ K * of_int (T - MU)"
    and "(1 - u) ^ K * of_int (T - MU) \<le> (a + i + c) * 60000"
    using s by (simp_all add: nearBy_def field_simps)
  have p: "0 \<le> (1 + u) ^ K" and q: "0 \<le> (1 - u)\<^sup>2" using u by simp_all
  have "(a + i + c) * 60000 \<le> (1 + u) ^ K * of_int T"
  proof -
    have "(of_int (T - MU) :: rat) \<le> of_int T" using MU by simp
    then have "(1 + u) ^ K * of_int (T - MU) \<le> (1 + u) ^ K * of_int T"
      using p by (rule mult_left_mono)
    then show ?thesis using hi by simp
  qed
  then have "(1 - u)\<^sup>2 * ((a + i + c) * 60000) \<le> (1 - u)\<^sup>2 * ((1 + u) ^ K * of_int T)"
    using q by (rule mult_left_mono)
  also have "\<dots> = (1 + u) ^ K * ((1 - u)\<^sup>2 * of_int T)" by simp
  also have "\<dots> \<le> (1 + u) ^ K * (d * 60000)"
  proof -
    have "(1 - u)\<^sup>2 * of_int T \<le> d * 60000"
      using near(4) by (simp add: nearBy_def field_simps)
    then show ?thesis using p by (rule mult_left_mono)
  qed
  finally have "((1 - u)\<^sup>2 * (a + i + c)) * 60000 \<le> ((1 + u) ^ K * d) * 60000"
    by (simp add: mult.assoc)
  then show "(1 - u)\<^sup>2 * (a + i + c) \<le> (1 + u) ^ K * d" by simp
qed

lemma binary64_range:
  assumes "n < (2::nat) ^ 32"
  shows "1 / 120000 * 60000 \<le> ((1 - 1 / 2 ^ 53) ^ (n + 1) :: rat)"
proof -
  have "(of_nat (n + 1) :: rat) \<le> 2 ^ 32" using assms
    by (metis Suc_eq_plus1 Suc_leI of_nat_le_iff of_nat_numeral of_nat_power)
  then have "(of_nat (n + 1) :: rat) * (1 / 2 ^ 53) \<le> 2 ^ 32 * (1 / 2 ^ 53)"
    by (rule mult_right_mono) simp
  then have "1 / 2 \<le> 1 - (of_nat (n + 1) :: rat) * (1 / 2 ^ 53)" by simp
  also have "\<dots> \<le> (1 - 1 / 2 ^ 53) ^ (n + 1)" by (rule bernoulli_rat) simp_all
  finally show ?thesis by simp
qed

lemma roundedGaps_minutes:
  "activeMinutes (analyzeSession utcPlatform roundedGaps 1)
     = Num (4803839602528530 / 9007199254740992)"
  "idleMinutes (analyzeSession utcPlatform roundedGaps 1) = Num 0"
  "chargingMinutes (analyzeSession utcPlatform roundedGaps 1) = Num 0"
  "durationMin (analyzeSession utcPlatform roundedGaps 1)
     = Num (4803839602528529 / 9007199254740992)"
  by (simp_all add: roundedGaps_def sampleEvent_def utc_fields sample_dates gap_dates
      analyzeSession_def Let_def pairStep_def zeroTotals_def minutesBetween_def getTime_def
      jsub_def jdiv_def jadd_def binary64_gaps)

lemma unknownGap_minutes:
  "activeMinutes (analyzeSession exactPlatform unknownGap 1) = Num 30"
  "idleMinutes (analyzeSession exactPlatform unknownGap 1) = Num 0"
  "chargingMinutes (analyzeSession exactPlatform unknownGap 1) = Num 0"
  "durationMin (analyzeSession exactPlatform unknownGap 1) = Num 1440"
  by (simp_all add: unknownGap_def sampleEvent_def exact_fields sample_dates
      analyzeSession_def Let_def pairStep_def zeroTotals_def minutesBetween_def getTime_def
      jsub_def jdiv_def jadd_def)

text \<open>
  C10 as stated fails in the arithmetic of the program. The three events of
  \<open>roundedGaps\<close> are in order and all active, one second and then 31 seconds apart. The
  two gaps are the doubles nearest to 1/60 and 31/60, their rounded sum is
  0.5333333333333334, and the duration is the double nearest to 32/60, which is
  0.5333333333333333: the active minutes exceed the duration.
\<close>

theorem minute_totals_counterexample:
  "sorted (map (timeKey utcPlatform) roundedGaps)
   \<and> activeMinutes (analyzeSession utcPlatform roundedGaps 1)
       = Num (4803839602528530 / 9007199254740992)
   \<and> idleMinutes (analyzeSession utcPlatform roundedGaps 1) = Num 0
   \<and> chargingMinutes (analyzeSession utcPlatform roundedGaps 1) = Num 0
   \<and> durationMin (analyzeSession utcPlatform roundedGaps 1)
       = Num (4803839602528529 / 9007199254740992)
   \<and> (4803839602528529 / 9007199254740992 :: rat)
       < 4803839602528530 / 9007199254740992 + 0 + 0"
  by (simp add: roundedGaps_def sampleEvent_def timeKey_def utc_fields sample_dates gap_dates
      analyzeSession_def Let_def pairStep_def zeroTotals_def minutesBetween_def getTime_def
      jsub_def jdiv_def jadd_def binary64_gaps)

text \<open>
  C10, amended. For every session, first for every rounding of the arithmetic: the
  interval starting at an event of state Unknown changes no accumulator (no time bucket
  and no drain accumulator), and when the timestamps parse and are non-decreasing, the
  exact milliseconds of the intervals starting at Active, Idle, Charging and Unknown
  events add up to the exact duration, the Unknown part being positive when some
  non-final Unknown event has a positive gap to its successor.

  In binary64 (a session of fewer than \<open>2\<^sup>3\<^sup>2\<close> events, the bound of an array), each of
  \<open>activeMinutes\<close>, \<open>idleMinutes\<close>, \<open>chargingMinutes\<close> is the exact number of minutes of
  its state up to \<open>length + 1\<close> roundings of relative error \<open>2\<^sup>-\<^sup>5\<^sup>3\<close>, and \<open>durationMin\<close> is
  the exact duration up to two such roundings. So their sum is at most the exact
  duration less the Unknown intervals, times \<open>(1 + 2\<^sup>-\<^sup>5\<^sup>3) ^ (length + 1)\<close>, and
  \<open>activeMinutes + idleMinutes + chargingMinutes \<le> durationMin\<close> holds up to the factor
  \<open>(1 + 2\<^sup>-\<^sup>5\<^sup>3) ^ (length + 1) / (1 - 2\<^sup>-\<^sup>5\<^sup>3)\<^sup>2\<close>.

  In exact arithmetic the four numbers are the exact ones,
  \<open>activeMinutes + idleMinutes + chargingMinutes \<le> durationMin\<close>, and the inequality is
  strict whenever some non-final event has state Unknown with a positive gap to its
  successor.
\<close>

theorem minute_totals_rounded:
  assumes "evs \<noteq> []"
    and "\<forall>e \<in> set evs. dateParse pf (timestamp e) \<noteq> None"
    and "sorted (map (timeKey pf) evs)"
  shows
    "(\<forall>c n a. state c = Unknown \<longrightarrow> pairStep pf c n a = a)
   \<and> stateMillis pf Active evs + stateMillis pf Idle evs + stateMillis pf Charging evs
       + stateMillis pf Unknown evs = timeKey pf (last evs) - timeKey pf (hd evs)
   \<and> 0 \<le> stateMillis pf Unknown evs
   \<and> ((\<exists>k. Suc k < length evs \<and> state (evs ! k) = Unknown
             \<and> timeKey pf (evs ! k) < timeKey pf (evs ! Suc k))
        \<longrightarrow> 0 < stateMillis pf Unknown evs)
   \<and> (\<exists>a i c d.
         activeMinutes (analyzeSession pf evs sid) = Num a
       \<and> idleMinutes (analyzeSession pf evs sid) = Num i
       \<and> chargingMinutes (analyzeSession pf evs sid) = Num c
       \<and> durationMin (analyzeSession pf evs sid) = Num d
       \<and> (rnd pf = binary64 \<and> length evs < 2 ^ 32 \<longrightarrow>
             nearBy (1 / 2 ^ 53) (length evs + 1) a (of_int (stateMillis pf Active evs) / 60000)
           \<and> nearBy (1 / 2 ^ 53) (length evs + 1) i (of_int (stateMillis pf Idle evs) / 60000)
           \<and> nearBy (1 / 2 ^ 53) (length evs + 1) c
                (of_int (stateMillis pf Charging evs) / 60000)
           \<and> nearBy (1 / 2 ^ 53) 2 d
                (of_int (timeKey pf (last evs) - timeKey pf (hd evs)) / 60000)
           \<and> (a + i + c) * 60000
                \<le> (1 + 1 / 2 ^ 53) ^ (length evs + 1)
                   * of_int (timeKey pf (last evs) - timeKey pf (hd evs)
                             - stateMillis pf Unknown evs)
           \<and> (1 - 1 / 2 ^ 53)\<^sup>2 * (a + i + c) \<le> (1 + 1 / 2 ^ 53) ^ (length evs + 1) * d)
       \<and> ((\<forall>x. rnd pf x = x) \<longrightarrow>
             a = of_int (stateMillis pf Active evs) / 60000
           \<and> i = of_int (stateMillis pf Idle evs) / 60000
           \<and> c = of_int (stateMillis pf Charging evs) / 60000
           \<and> d = of_int (timeKey pf (last evs) - timeKey pf (hd evs)) / 60000
           \<and> a + i + c \<le> d
           \<and> ((\<exists>k. Suc k < length evs \<and> state (evs ! k) = Unknown
                     \<and> timeKey pf (evs ! k) < timeKey pf (evs ! Suc k))
                \<longrightarrow> a + i + c < d)))"
proof -
  let ?T = "timeKey pf (last evs) - timeKey pf (hd evs)"
  let ?gap = "\<exists>k. Suc k < length evs \<and> state (evs ! k) = Unknown
                  \<and> timeKey pf (evs ! k) < timeKey pf (evs ! Suc k)"
  note total = stateMillis_total [OF assms(1), of pf]
  note MU = stateMillis_nonneg [OF assms(3), of Unknown]
  have pos: "0 < stateMillis pf Unknown evs" if ?gap
    using that unknown_gap_zip stateMillis_Unknown_pos [OF assms(3)] by blast
  have p0: "\<exists>y. dateParse pf (timestamp (hd evs)) = Some y"
    and pl: "\<exists>y. dateParse pf (timestamp (last evs)) = Some y"
    using assms(1,2) by (metis hd_in_set not_None_eq, metis last_in_set not_None_eq)
  obtain d where d: "durationMin (analyzeSession pf evs sid) = Num d"
    using p0 pl by (auto simp: analyzeSession_minutes(4) [OF assms(1)] minutesBetween_def
        getTime_def jsub_def jdiv_def)
  have nums: "\<exists>A I C. accActiveMinutes (accumulate pf es a0) = Num A
      \<and> accIdleMinutes (accumulate pf es a0) = Num I
      \<and> accChargingMinutes (accumulate pf es a0) = Num C"
    if "\<forall>e \<in> set es. dateParse pf (timestamp e) \<noteq> None"
      "\<exists>A I C. accActiveMinutes a0 = Num A \<and> accIdleMinutes a0 = Num I
         \<and> accChargingMinutes a0 = Num C" for es a0
    using that
  proof (induction pf es a0 rule: accumulate.induct)
    case (1 pf c n rest a)
    obtain s t where st: "dateParse pf (timestamp c) = Some s" "dateParse pf (timestamp n) = Some t"
      using 1(2) by auto
    have "\<exists>A I C. accActiveMinutes (pairStep pf c n a) = Num A
        \<and> accIdleMinutes (pairStep pf c n a) = Num I
        \<and> accChargingMinutes (pairStep pf c n a) = Num C"
      using 1(3) st
      by (cases "state c")
         (auto simp: pairStep_def Let_def minutesBetween_def getTime_def jsub_def jdiv_def
            jadd_def)
    then show ?case using 1(1,2) by simp
  qed simp_all
  obtain a i c where acc: "activeMinutes (analyzeSession pf evs sid) = Num a"
      "idleMinutes (analyzeSession pf evs sid) = Num i"
      "chargingMinutes (analyzeSession pf evs sid) = Num c"
    using nums [OF assms(2), of zeroTotals]
    by (auto simp: analyzeSession_minutes [OF assms(1)] zeroTotals_minutes)
  have b64: "nearBy (1 / 2 ^ 53) (length evs + 1) a (of_int (stateMillis pf Active evs) / 60000)
           \<and> nearBy (1 / 2 ^ 53) (length evs + 1) i (of_int (stateMillis pf Idle evs) / 60000)
           \<and> nearBy (1 / 2 ^ 53) (length evs + 1) c
                (of_int (stateMillis pf Charging evs) / 60000)
           \<and> nearBy (1 / 2 ^ 53) 2 d (of_int ?T / 60000)
           \<and> (a + i + c) * 60000
                \<le> (1 + 1 / 2 ^ 53) ^ (length evs + 1)
                   * of_int (?T - stateMillis pf Unknown evs)
           \<and> (1 - 1 / 2 ^ 53)\<^sup>2 * (a + i + c) \<le> (1 + 1 / 2 ^ 53) ^ (length evs + 1) * d"
    if rb: "rnd pf = binary64" and len: "length evs < 2 ^ 32"
  proof -
    have u: "(0::rat) \<le> 1 / 2 ^ 53" "(1::rat) / 2 ^ 53 \<le> 1" by simp_all
    have r0: "rnd pf 0 = 0" by (simp add: rb binary64_0)
    have rel: "\<forall>x. 1 / 120000 \<le> \<bar>x\<bar> \<longrightarrow> \<bar>rnd pf x - x\<bar> \<le> 1 / 2 ^ 53 * \<bar>x\<bar>"
      unfolding rb by (rule binary64_relative)
    obtain a' i' c' d' where n:
        "activeMinutes (analyzeSession pf evs sid) = Num a'"
        "idleMinutes (analyzeSession pf evs sid) = Num i'"
        "chargingMinutes (analyzeSession pf evs sid) = Num c'"
        "durationMin (analyzeSession pf evs sid) = Num d'"
        "nearBy (1 / 2 ^ 53) (length evs + 1) a' (of_int (stateMillis pf Active evs) / 60000)"
        "nearBy (1 / 2 ^ 53) (length evs + 1) i' (of_int (stateMillis pf Idle evs) / 60000)"
        "nearBy (1 / 2 ^ 53) (length evs + 1) c' (of_int (stateMillis pf Charging evs) / 60000)"
        "nearBy (1 / 2 ^ 53) 2 d' (of_int ?T / 60000)"
      using session_minutes_near [OF u r0 rel binary64_range [OF len] assms, of sid] by blast
    have eq: "a' = a" "i' = i" "c' = c" "d' = d" using n(1-4) acc d by simp_all
    show ?thesis
      using n(5-8) minutes_sum_near(1,3) [OF u n(5-8) total MU] unfolding eq by blast
  qed
  have exact: "a = of_int (stateMillis pf Active evs) / 60000
           \<and> i = of_int (stateMillis pf Idle evs) / 60000
           \<and> c = of_int (stateMillis pf Charging evs) / 60000
           \<and> d = of_int ?T / 60000
           \<and> a + i + c \<le> d
           \<and> (?gap \<longrightarrow> a + i + c < d)"
    if ex: "\<forall>x. rnd pf x = x"
  proof -
    have u: "(0::rat) \<le> 0" "(0::rat) \<le> 1" by simp_all
    have r0: "rnd pf 0 = 0" by (simp add: ex)
    have rel: "\<forall>x. 0 \<le> \<bar>x\<bar> \<longrightarrow> \<bar>rnd pf x - x\<bar> \<le> 0 * \<bar>x\<bar>" by (simp add: ex)
    have range: "0 * 60000 \<le> ((1 - 0) ^ (length evs + 1) :: rat)" by simp
    obtain a' i' c' d' where n:
        "activeMinutes (analyzeSession pf evs sid) = Num a'"
        "idleMinutes (analyzeSession pf evs sid) = Num i'"
        "chargingMinutes (analyzeSession pf evs sid) = Num c'"
        "durationMin (analyzeSession pf evs sid) = Num d'"
        "nearBy 0 (length evs + 1) a' (of_int (stateMillis pf Active evs) / 60000)"
        "nearBy 0 (length evs + 1) i' (of_int (stateMillis pf Idle evs) / 60000)"
        "nearBy 0 (length evs + 1) c' (of_int (stateMillis pf Charging evs) / 60000)"
        "nearBy 0 2 d' (of_int ?T / 60000)"
      using session_minutes_near [OF u r0 rel range assms, of sid] by blast
    have eq: "a' = a" "i' = i" "c' = c" "d' = d" using n(1-4) acc d by simp_all
    have v: "a = of_int (stateMillis pf Active evs) / 60000"
      "i = of_int (stateMillis pf Idle evs) / 60000"
      "c = of_int (stateMillis pf Charging evs) / 60000"
      "d = of_int ?T / 60000"
      using n(5-8) unfolding eq by (simp_all add: nearBy_def)
    have sum: "a + i + c + of_int (stateMillis pf Unknown evs) / 60000 = d"
      unfolding v using total [symmetric] by (simp add: add_divide_distrib)
    have le: "a + i + c \<le> d" using sum MU by (simp add: field_simps)
    have lt: "a + i + c < d" if ?gap
    proof -
      have "(0::rat) < of_int (stateMillis pf Unknown evs) / 60000" using pos [OF that] by simp
      then show ?thesis using sum by linarith
    qed
    show ?thesis using v le lt by blast
  qed
  show ?thesis
    using pairStep_Unknown total MU pos acc d b64 exact by blast
qed


text \<open>
  The session of the counterexample, in binary64: the active minutes exceed the duration
  within the factor of the theorem. And \<open>unknownGap\<close> in exact arithmetic: 30 active
  minutes, an interval of 1410 minutes that starts at an Unknown event, duration 1440.
\<close>

theorem minute_totals_rounded_witness:
  "rnd utcPlatform = binary64 \<and> length roundedGaps < 2 ^ 32
   \<and> map (\<lambda>e. dateParse utcPlatform (timestamp e)) roundedGaps =
       [Some 1756108800000, Some 1756108801000, Some 1756108832000]
   \<and> sorted (map (timeKey utcPlatform) roundedGaps)
   \<and> (1 - 1 / 2 ^ 53)\<^sup>2 * (4803839602528530 / 9007199254740992 + 0 + 0)
       \<le> ((1 + 1 / 2 ^ 53) ^ (length roundedGaps + 1) * (4803839602528529 / 9007199254740992)
           :: rat)
   \<and> rnd exactPlatform = (\<lambda>x. x)
   \<and> map (\<lambda>e. dateParse exactPlatform (timestamp e)) unknownGap =
       [Some 1756022400000, Some 1756024200000, Some 1756108800000]
   \<and> sorted (map (timeKey exactPlatform) unknownGap)
   \<and> state (unknownGap ! 1) = Unknown
   \<and> timeKey exactPlatform (unknownGap ! 1) < timeKey exactPlatform (unknownGap ! Suc 1)
   \<and> stateMillis exactPlatform Unknown unknownGap = 84600000
   \<and> activeMinutes (analyzeSession exactPlatform unknownGap 1) = Num 30
   \<and> durationMin (analyzeSession exactPlatform unknownGap 1) = Num 1440
   \<and> (30 + 0 + 0 :: rat) < 1440"
proof -
  have r1: "rnd utcPlatform = binary64" by (simp add: utc_fields)
  have l1: "length roundedGaps < 2 ^ 32" by (simp add: roundedGaps_def)
  have n1: "roundedGaps \<noteq> []" by (simp add: roundedGaps_def)
  have d1: "map (\<lambda>e. dateParse utcPlatform (timestamp e)) roundedGaps =
       [Some 1756108800000, Some 1756108801000, Some 1756108832000]"
    by (simp add: roundedGaps_def sampleEvent_def utc_fields sample_dates gap_dates)
  have v1: "\<forall>e \<in> set roundedGaps. dateParse utcPlatform (timestamp e) \<noteq> None"
    by (simp add: roundedGaps_def sampleEvent_def utc_fields sample_dates gap_dates)
  have s1: "sorted (map (timeKey utcPlatform) roundedGaps)"
    by (simp add: roundedGaps_def sampleEvent_def timeKey_def utc_fields sample_dates gap_dates)
  obtain a i c d where b:
      "activeMinutes (analyzeSession utcPlatform roundedGaps 1) = Num a"
      "idleMinutes (analyzeSession utcPlatform roundedGaps 1) = Num i"
      "chargingMinutes (analyzeSession utcPlatform roundedGaps 1) = Num c"
      "durationMin (analyzeSession utcPlatform roundedGaps 1) = Num d"
      "(1 - 1 / 2 ^ 53)\<^sup>2 * (a + i + c) \<le> (1 + 1 / 2 ^ 53) ^ (length roundedGaps + 1) * d"
    using minute_totals_rounded [OF n1 v1 s1, of 1] r1 l1 by blast
  have "a = 4803839602528530 / 9007199254740992" "i = 0" "c = 0"
    "d = 4803839602528529 / 9007199254740992"
    using b(1-4) by (simp_all only: roundedGaps_minutes jsnum.inject)
  then have c1: "(1 - 1 / 2 ^ 53)\<^sup>2 * (4803839602528530 / 9007199254740992 + 0 + 0)
       \<le> ((1 + 1 / 2 ^ 53) ^ (length roundedGaps + 1) * (4803839602528529 / 9007199254740992)
           :: rat)"
    using b(5) by (simp only:)
  have r2: "\<forall>x. rnd exactPlatform x = x" by (simp add: exact_fields)
  have n2: "unknownGap \<noteq> []" by (simp add: unknownGap_def)
  have d2: "map (\<lambda>e. dateParse exactPlatform (timestamp e)) unknownGap =
       [Some 1756022400000, Some 1756024200000, Some 1756108800000]"
    by (simp add: unknownGap_def sampleEvent_def exact_fields sample_dates)
  have v2: "\<forall>e \<in> set unknownGap. dateParse exactPlatform (timestamp e) \<noteq> None"
    by (simp add: unknownGap_def sampleEvent_def exact_fields sample_dates)
  have s2: "sorted (map (timeKey exactPlatform) unknownGap)"
    by (simp add: unknownGap_def sampleEvent_def timeKey_def exact_fields sample_dates)
  have un: "state (unknownGap ! 1) = Unknown"
    by (simp add: unknownGap_def sampleEvent_def)
  have g: "timeKey exactPlatform (unknownGap ! 1) < timeKey exactPlatform (unknownGap ! Suc 1)"
    by (simp add: unknownGap_def sampleEvent_def timeKey_def exact_fields sample_dates)
  have k: "\<exists>k. Suc k < length unknownGap \<and> state (unknownGap ! k) = Unknown
      \<and> timeKey exactPlatform (unknownGap ! k) < timeKey exactPlatform (unknownGap ! Suc k)"
    using un g by (intro exI [of _ 1]) (simp add: unknownGap_def)
  have mu: "stateMillis exactPlatform Unknown unknownGap = 84600000"
    by (simp add: unknownGap_def sampleEvent_def stateMillis_simps timeKey_def exact_fields
        sample_dates)
  obtain a' i' c' d' where e:
      "activeMinutes (analyzeSession exactPlatform unknownGap 1) = Num a'"
      "idleMinutes (analyzeSession exactPlatform unknownGap 1) = Num i'"
      "chargingMinutes (analyzeSession exactPlatform unknownGap 1) = Num c'"
      "durationMin (analyzeSession exactPlatform unknownGap 1) = Num d'"
      "a' + i' + c' < d'"
    using minute_totals_rounded [OF n2 v2 s2, of 1] r2 k by blast
  have "a' = 30" "i' = 0" "c' = 0" "d' = 1440"
    using e(1-4) by (simp_all only: unknownGap_minutes jsnum.inject)
  then have c2: "(30 + 0 + 0 :: rat) < 1440" using e(5) by (simp only:)
  show ?thesis
    using r1 l1 d1 s1 c1 exact_fields(2) d2 s2 un g mu unknownGap_minutes(1,4) c2 by blast
qed

subsection \<open>Summary\<close>
















end
